theory Spec2Isabelle
  imports Complex_Main "HOL-Library.AList"
begin

section \<open>Messages and the base agent (src/lib/agents/base-agent.ts)\<close>

text \<open>
  JavaScript numbers are modelled as follows: clock readings and TTLs are \<open>int\<close>
  (milliseconds and seconds), counts are \<open>nat\<close>, and the scores of the auction
  (wait times, priorities, fairness penalties) are \<open>real\<close>, that is, the arithmetic
  of the source without the rounding of IEEE doubles. A property that is optional in a
  payload is an \<open>option\<close>; \<open>None\<close> is JavaScript's \<open>undefined\<close>.
\<close>

datatype message_type = Proposal | Acceptance | Rejection | Info | Emergency

datatype status = Pending | Delivered | Expired

text \<open>The properties of \<open>message.payload\<close> that the agents read.\<close>

record payload =
  p_type :: "string option"
  p_proposalId :: "string option"
  p_vehicleId :: string
  p_company :: string
  p_waitTime :: "real option"
  p_passengers :: "real option"
  p_batteryLevel :: "real option"
  p_direction :: string
  p_duration :: "real option"

text \<open>Interface \<open>Message\<close>; a row of \<open>coordination_messages\<close> has the same columns.\<close>

record message =
  msg_id :: string
  timestamp :: string
  sender :: string
  recipient :: string
  message_type :: message_type
  msg_priority :: int
  payload :: payload
  ttl :: int

text \<open>
  An exception is a value. A handler that throws has still made the mutations that
  precede the throw, so both outcomes carry the state.
\<close>

datatype error = TypeError | ConfigError | HandlerError

datatype 's outcome = Completed 's | Raised error 's

text \<open>
  What \<open>handleIncomingMessage\<close> acts on: the agent's own state, the \<open>status\<close>
  column of \<open>coordination_messages\<close> by \<open>msg_id\<close>, and the list of messages that
  were handed to \<open>processMessage\<close> (a history kept to state that a handler was or was
  not invoked). The row of a received message exists, since its insertion is what
  triggered the delivery, so the update by \<open>msg_id\<close> sets its status.
\<close>

record 's world =
  agent :: 's
  statuses :: "string \<rightharpoonup> status"
  invoked :: "string list"

definition updateMessageStatus :: "string \<Rightarrow> status \<Rightarrow> 's world \<Rightarrow> 's world" where
  "updateMessageStatus msgId s w = w\<lparr>statuses := (statuses w)(msgId \<mapsto> s)\<rparr>"

text \<open>
  \<open>Date.now() - new Date(message.timestamp).getTime()\<close>. The parser of dates is a
  parameter \<open>getTime\<close>; it gives \<open>None\<close> for an invalid date, where JavaScript has
  \<open>NaN\<close>, and every comparison with \<open>NaN\<close> is false.
\<close>

definition messageAge :: "(string \<Rightarrow> int option) \<Rightarrow> int \<Rightarrow> message \<Rightarrow> int option" where
  "messageAge getTime now m = map_option (\<lambda>t. now - t) (getTime (timestamp m))"

definition is_expired :: "(string \<Rightarrow> int option) \<Rightarrow> int \<Rightarrow> message \<Rightarrow> bool" where
  "is_expired getTime now m =
     (case messageAge getTime now m of None \<Rightarrow> False | Some age \<Rightarrow> age > ttl m * 1000)"

definition handleIncomingMessage ::
  "(message \<Rightarrow> 's \<Rightarrow> 's outcome) \<Rightarrow> (string \<Rightarrow> int option) \<Rightarrow> int \<Rightarrow> message
     \<Rightarrow> 's world \<Rightarrow> 's world outcome" where
  "handleIncomingMessage processMessage getTime now m w =
     (if is_expired getTime now m
      then Completed (updateMessageStatus (msg_id m) Expired w)
      else
        (let w1 = w\<lparr>invoked := invoked w @ [msg_id m]\<rparr> in
         case processMessage m (agent w1) of
           Raised e s \<Rightarrow> Raised e (w1\<lparr>agent := s\<rparr>)
         | Completed s \<Rightarrow> Completed (updateMessageStatus (msg_id m) Delivered (w1\<lparr>agent := s\<rparr>))))"

subsection \<open>Consensus\<close>

text \<open>
  \<open>Math.ceil(n * 0.7)\<close> and \<open>Math.ceil(n * 0.51)\<close> for a count \<open>n\<close>.
  The double nearest to 0.7 lies below 0.7 and the one nearest to 0.51 lies above 0.51,
  by less than one part in \<open>10^16\<close>; for every count below \<open>2^50\<close> the rounded
  product has the ceiling of the exact one, so the ceilings are taken over the reals.
\<close>

definition quorumCount :: "nat \<Rightarrow> int" where
  "quorumCount n = \<lceil>real n * 0.7\<rceil>"

definition majorityCount :: "nat \<Rightarrow> int" where
  "majorityCount n = \<lceil>real n * 0.51\<rceil>"

text \<open>
  The query of the polling loop: rows of type acceptance or rejection whose payload
  carries the proposal id.
\<close>

definition selectResponses :: "string \<Rightarrow> message list \<Rightarrow> message list" where
  "selectResponses proposalId rows =
     filter (\<lambda>msg. (message_type msg = Acceptance \<or> message_type msg = Rejection)
                  \<and> p_proposalId (payload msg) = Some proposalId) rows"

text \<open>
  \<open>responses\<close> is a JavaScript \<open>Map\<close>: an association list with distinct keys in
  insertion order; \<open>set\<close> on a present key overwrites in place.
\<close>

definition recordResponses :: "message list \<Rightarrow> (string \<times> bool) list \<Rightarrow> (string \<times> bool) list" where
  "recordResponses data responses =
     foldl (\<lambda>r msg. AList.update (sender msg) (message_type msg = Acceptance) r) responses data"

text \<open>
  The \<open>while\<close> loop. Each element of the trace is one evaluation of the loop
  condition: the clock reading of \<open>Date.now()\<close> and the table as the query would
  return it (\<open>None\<close> when \<open>data\<close> is null). The loop ends when the clock has reached
  the timeout or when the quorum count is reached; a trace that ends before either
  gives \<open>None\<close>.
\<close>

fun pollResponses ::
  "string \<Rightarrow> nat \<Rightarrow> int \<Rightarrow> int \<Rightarrow> (int \<times> message list option) list
     \<Rightarrow> (string \<times> bool) list \<Rightarrow> (string \<times> bool) list option" where
  "pollResponses proposalId n timeoutMs startTime [] responses = None"
| "pollResponses proposalId n timeoutMs startTime ((now, table) # rest) responses =
     (if now - startTime < timeoutMs then
        (let responses' =
               (case table of
                  None \<Rightarrow> responses
                | Some rows \<Rightarrow> recordResponses (selectResponses proposalId rows) responses)
         in if int (length responses') \<ge> quorumCount n then Some responses'
            else pollResponses proposalId n timeoutMs startTime rest responses')
      else Some responses)"

record consensus =
  approved :: bool
  responses :: "(string \<times> bool) list"

definition countApprovals :: "(string \<times> bool) list \<Rightarrow> nat" where
  "countApprovals rs = length (filter (\<lambda>v. v) (map snd rs))"

definition decide :: "(string \<times> bool) list \<Rightarrow> consensus" where
  "decide rs =
     (let approvals = countApprovals rs;
          approved = (int approvals \<ge> majorityCount (length rs))
      in \<lparr>approved = approved, responses = rs\<rparr>)"

text \<open>
  \<open>gatherConsensus\<close>: the proposal is first broadcast to the participants (an insert
  per participant, which the result does not depend on), then the responses are polled
  and the majority computed. \<open>proposalId\<close> is the fresh UUID, \<open>startTime\<close> the clock
  reading before the loop.
\<close>

definition gatherConsensus ::
  "string \<Rightarrow> string list \<Rightarrow> int \<Rightarrow> int \<Rightarrow> (int \<times> message list option) list
     \<Rightarrow> consensus option" where
  "gatherConsensus proposalId participants timeoutMs startTime trace =
     map_option decide
       (pollResponses proposalId (length participants) timeoutMs startTime trace [])"

text \<open>
  Two notions for stating properties of a round: an observation in which the query
  returns no response to the proposal, and the senders of the responses that a trace
  shows.
\<close>

definition silent :: "string \<Rightarrow> message list option \<Rightarrow> bool" where
  "silent proposalId table =
     (case table of None \<Rightarrow> True | Some rows \<Rightarrow> selectResponses proposalId rows = [])"

definition responders :: "string \<Rightarrow> (int \<times> message list option) list \<Rightarrow> string set" where
  "responders proposalId trace =
     set (concat (map (\<lambda>obs. case snd obs of
                                None \<Rightarrow> []
                              | Some rows \<Rightarrow> map sender (selectResponses proposalId rows)) trace))"

text \<open>A response message, for writing concrete rounds.\<close>

definition response :: "string \<Rightarrow> message_type \<Rightarrow> string \<Rightarrow> message" where
  "response from mt proposalId =
     \<lparr>msg_id = ''response-'' @ from, timestamp = ''2025-01-01T00:00:00Z'', sender = from,
      recipient = ''master'', message_type = mt, msg_priority = 5,
      payload = \<lparr>p_type = None, p_proposalId = Some proposalId, p_vehicleId = [],
                 p_company = [], p_waitTime = None, p_passengers = None,
                 p_batteryLevel = None, p_direction = [], p_duration = None\<rparr>,
      ttl = 60\<rparr>"

section \<open>The reasoning adapter (NemotronClient.reason, negotiateIntersection)\<close>

text \<open>
  The value that \<open>makeDecision\<close> returns is read by the agent as an
  \<open>AuctionResult\<close>; a property that the returned object does not have is \<open>None\<close>.
  \<open>error_text\<close> is the \<open>error\<close> property of the objects that \<open>reason\<close>
  returns on failure.
\<close>

record AuctionResult =
  error_text :: "string option"
  crossingOrder :: "string list option"
  waitTimes :: "(string \<times> real) list option"
  fairnessAdjustments :: "(string \<times> real) list option"

text \<open>
  What the service answers when \<open>reason\<close> calls it: the request fails (\<open>fetch\<close>
  rejects, the status is not ok, or the body has no readable choice), the content is
  not JSON, or the content parses to an object.
\<close>

datatype service_reply =
    RequestFailed
  | Unparsable
  | Parsed AuctionResult

definition errorObject :: "string \<Rightarrow> AuctionResult" where
  "errorObject txt =
     \<lparr>error_text = Some txt, crossingOrder = None, waitTimes = None,
      fairnessAdjustments = None\<rparr>"

text \<open>\<open>reason\<close> catches its own failures and returns an object that describes them.\<close>

fun reason :: "service_reply \<Rightarrow> AuctionResult" where
  "reason RequestFailed = errorObject ''Reasoning failed''"
| "reason Unparsable = errorObject ''Failed to parse response''"
| "reason (Parsed r) = r"

text \<open>
  \<open>negotiateIntersection\<close>: \<open>getNemotronClient\<close> throws, outside of \<open>reason\<close>,
  when the API key is not configured; otherwise the client reasons.
\<close>

datatype adapter_reply = KeyMissing | Reply service_reply

fun negotiateIntersection :: "adapter_reply \<Rightarrow> error + AuctionResult" where
  "negotiateIntersection KeyMissing = Inl ConfigError"
| "negotiateIntersection (Reply r) = Inr (reason r)"

section \<open>The intersection agent (src/lib/agents/intersection-agent.ts)\<close>

record CrossingRequest =
  vehicleId :: string
  company :: string
  arrivalTime :: int
  waitTime :: real
  priority :: real
  passengers :: real
  batteryLevel :: real
  direction :: string

text \<open>The payloads of the messages that the agent sends.\<close>

datatype out_payload =
    CrossingRequestAck nat nat
  | CrossingPermission string real bool
  | EmergencyYield string bool
  | StatusResponse "(string \<times> nat) list" nat nat real

record sent_message =
  to :: string
  kind :: message_type
  body :: out_payload
  sent_priority :: nat
  sent_ttl :: nat

record negotiation_event =
  event_participants :: "string list"
  event_outcome :: AuctionResult
  vehicles_coordinated :: nat
  average_wait_time :: "real option"

record intersection_state =
  queue_lengths :: "(string \<times> nat) list"
  state_average_wait_time :: real
  active_negotiations :: "int list"
  emergency_active :: "bool option"
  emergency_duration :: "real option"

text \<open>
  Everything the agent does to the outside, in the order in which it does it: inserts
  into \<open>coordination_messages\<close>, calls of the adapter with the merged requests,
  inserts into \<open>coordination_events\<close>, upserts into \<open>intersection_states\<close>.
\<close>

datatype effect =
    InsertMessage sent_message
  | AdapterCall "CrossingRequest list"
  | InsertEvent negotiation_event
  | UpsertState intersection_state

text \<open>
  The fields of the class. The two \<open>Map\<close>s are association lists in insertion order;
  a negotiation id \<open>neg-<Date.now()>\<close> is the clock reading it is made of.
\<close>

record IntersectionAgent =
  intersectionId :: string
  queuesByDirection :: "(string \<times> CrossingRequest list) list"
  currentNegotiations :: "int list"
  fairnessTracker :: "(string \<times> real) list"
  effects :: "effect list"

definition directions :: "string list" where
  "directions = [''north'', ''south'', ''east'', ''west'',
                 ''northeast'', ''northwest'', ''southeast'', ''southwest'']"

definition initializeQueues :: "IntersectionAgent \<Rightarrow> IntersectionAgent" where
  "initializeQueues st =
     st\<lparr>queuesByDirection :=
          foldl (\<lambda>qs dir. AList.update dir [] qs) (queuesByDirection st) directions\<rparr>"

definition newIntersectionAgent :: "string \<Rightarrow> IntersectionAgent" where
  "newIntersectionAgent ident =
     initializeQueues
       \<lparr>intersectionId = ident, queuesByDirection = [], currentNegotiations = [],
        fairnessTracker = [], effects = []\<rparr>"

text \<open>
  \<open>sendMessage\<close> with its defaults \<open>priority = 5\<close> and \<open>ttl = 60\<close>; an error of
  the insert is logged and not thrown.
\<close>

definition sendMessage ::
  "string \<Rightarrow> message_type \<Rightarrow> out_payload \<Rightarrow> nat \<Rightarrow> IntersectionAgent \<Rightarrow> IntersectionAgent" where
  "sendMessage rcpt mt pl prio st =
     st\<lparr>effects := effects st @
          [InsertMessage \<lparr>to = rcpt, kind = mt, body = pl, sent_priority = prio, sent_ttl = 60\<rparr>]\<rparr>"

text \<open>\<open>x || d\<close> on an optional number: \<open>undefined\<close> and \<open>0\<close> are falsy.\<close>

definition or_default :: "real option \<Rightarrow> real \<Rightarrow> real" where
  "or_default x d = (case x of None \<Rightarrow> d | Some v \<Rightarrow> if v = 0 then d else v)"

text \<open>\<open>x < 20\<close> on an optional number: \<open>undefined < 20\<close> is false.\<close>

definition below :: "real option \<Rightarrow> real \<Rightarrow> bool" where
  "below x b = (case x of None \<Rightarrow> False | Some v \<Rightarrow> v < b)"

definition calculatePriority :: "(string \<times> real) list \<Rightarrow> payload \<Rightarrow> real" where
  "calculatePriority tracker p =
     (let priority0 = 0;
          priority1 = priority0 + or_default (p_waitTime p) 0 / 60 * 10;
          priority2 = priority1 + or_default (p_passengers p) 0 * 5;
          priority3 = (if below (p_batteryLevel p) 20 then priority2 + 50 else priority2);
          companyPenalty = or_default (map_of tracker (p_company p)) 0;
          priority4 = priority3 - companyPenalty
      in max 0 priority4)"

definition shouldNegotiate :: "IntersectionAgent \<Rightarrow> bool" where
  "shouldNegotiate st =
     (let activeDirections =
            length (filter (\<lambda>(dir, queue). length queue > 0) (queuesByDirection st))
      in activeDirections \<ge> 2 \<and> length (currentNegotiations st) = 0)"

definition estimateWaitTime :: "IntersectionAgent \<Rightarrow> string \<Rightarrow> nat" where
  "estimateWaitTime st dir =
     (case map_of (queuesByDirection st) dir of
        None \<Rightarrow> 0
      | Some queue \<Rightarrow> length queue * 15)"

text \<open>\<open>{...req, waitTime: req.waitTime}\<close>: a queued request read as a payload.\<close>

definition spread :: "CrossingRequest \<Rightarrow> payload" where
  "spread req =
     \<lparr>p_type = None, p_proposalId = None, p_vehicleId = vehicleId req,
      p_company = company req, p_waitTime = Some (waitTime req),
      p_passengers = Some (passengers req), p_batteryLevel = Some (batteryLevel req),
      p_direction = direction req, p_duration = None\<rparr>"

definition refresh :: "int \<Rightarrow> (string \<times> real) list \<Rightarrow> CrossingRequest \<Rightarrow> CrossingRequest" where
  "refresh now tracker req =
     (let req1 = req\<lparr>waitTime := real_of_int (now - arrivalTime req) / 1000\<rparr>
      in req1\<lparr>priority := calculatePriority tracker (spread req1)\<rparr>)"

text \<open>
  \<open>queue.findIndex\<close> followed by \<open>queue.splice(index, 1)\<close>: the first request of the
  vehicle leaves the queue.
\<close>

fun removeFirst :: "string \<Rightarrow> CrossingRequest list \<Rightarrow> CrossingRequest list" where
  "removeFirst v [] = []"
| "removeFirst v (r # rs) = (if vehicleId r = v then rs else r # removeFirst v rs)"

definition isQueued :: "string \<Rightarrow> IntersectionAgent \<Rightarrow> bool" where
  "isQueued v st = (v \<in> set (map vehicleId (concat (map snd (queuesByDirection st)))))"

definition lookupWait :: "(string \<times> real) list \<Rightarrow> string \<Rightarrow> real" where
  "lookupWait wts v = or_default (map_of wts v) 0"

text \<open>
  The body of the loop of \<open>executeCrossingOrder\<close> for one vehicle id. Reading
  \<open>waitTimes[vehicleId]\<close> throws when \<open>waitTimes\<close> is undefined, after the vehicle
  has left its queue.
\<close>

definition grantCrossing ::
  "(string \<times> real) list option \<Rightarrow> string \<Rightarrow> IntersectionAgent \<Rightarrow> IntersectionAgent outcome" where
  "grantCrossing wts v st =
     (let st1 = st\<lparr>queuesByDirection :=
                     map (\<lambda>(dir, queue). (dir, removeFirst v queue)) (queuesByDirection st)\<rparr>
      in if isQueued v st then
           (case wts of
              None \<Rightarrow> Raised TypeError st1
            | Some w \<Rightarrow>
                Completed (sendMessage (''vehicle-'' @ v) Info
                  (CrossingPermission (intersectionId st1) (lookupWait w v) True) 10 st1))
         else Completed st1)"

fun grantAll ::
  "(string \<times> real) list option \<Rightarrow> string list \<Rightarrow> IntersectionAgent \<Rightarrow> IntersectionAgent outcome" where
  "grantAll wts [] st = Completed st"
| "grantAll wts (v # vs) st =
     (case grantCrossing wts v st of
        Raised e st1 \<Rightarrow> Raised e st1
      | Completed st1 \<Rightarrow> grantAll wts vs st1)"

text \<open>\<open>for (const vehicleId of crossingOrder)\<close> throws when the order is undefined.\<close>

definition executeCrossingOrder :: "AuctionResult \<Rightarrow> IntersectionAgent \<Rightarrow> IntersectionAgent outcome" where
  "executeCrossingOrder result st =
     (case crossingOrder result of
        None \<Rightarrow> Raised TypeError st
      | Some order \<Rightarrow> grantAll (waitTimes result) order st)"

definition companyPenalty :: "(string \<times> real) list \<Rightarrow> string \<Rightarrow> real" where
  "companyPenalty tracker c = or_default (map_of tracker c) 0"

definition applyAdjustments :: "(string \<times> real) list \<Rightarrow> (string \<times> real) list \<Rightarrow> (string \<times> real) list" where
  "applyAdjustments adjustments tracker =
     foldl (\<lambda>tr (c, adjustment). AList.update c (companyPenalty tr c + adjustment) tr)
       tracker adjustments"

definition decayAll :: "(string \<times> real) list \<Rightarrow> (string \<times> real) list" where
  "decayAll tracker = map (\<lambda>(c, v). (c, v * 0.95)) tracker"

text \<open>\<open>Object.entries(fairnessAdjustments)\<close> throws when the property is undefined.\<close>

definition updateFairnessScores :: "AuctionResult \<Rightarrow> IntersectionAgent \<Rightarrow> IntersectionAgent outcome" where
  "updateFairnessScores result st =
     (case fairnessAdjustments result of
        None \<Rightarrow> Raised TypeError st
      | Some adjustments \<Rightarrow>
          Completed (st\<lparr>fairnessTracker :=
                          decayAll (applyAdjustments adjustments (fairnessTracker st))\<rparr>))"

definition allRequests :: "IntersectionAgent \<Rightarrow> CrossingRequest list" where
  "allRequests st = concat (map snd (queuesByDirection st))"

definition averageOf :: "real list \<Rightarrow> real option" where
  "averageOf xs = (if xs = [] then None else Some (sum_list xs / real (length xs)))"

text \<open>
  The \<open>try\<close> block of \<open>runAuctionNegotiation\<close>. The merged requests are the objects
  of the queues, so the new wait times and priorities are written into the queues. The
  clock is read once for the whole handler.
\<close>

definition auctionBody :: "adapter_reply \<Rightarrow> int \<Rightarrow> IntersectionAgent \<Rightarrow> IntersectionAgent outcome" where
  "auctionBody reply now st =
     (let st1 = st\<lparr>queuesByDirection :=
                     map (\<lambda>(dir, queue). (dir, map (refresh now (fairnessTracker st)) queue))
                       (queuesByDirection st)\<rparr>;
          requests = allRequests st1;
          st2 = st1\<lparr>effects := effects st1 @ [AdapterCall requests]\<rparr>
      in case negotiateIntersection reply of
           Inl e \<Rightarrow> Raised e st2
         | Inr result \<Rightarrow>
             (case executeCrossingOrder result st2 of
                Raised e st3 \<Rightarrow> Raised e st3
              | Completed st3 \<Rightarrow>
                  (case updateFairnessScores result st3 of
                     Raised e st4 \<Rightarrow> Raised e st4
                   | Completed st4 \<Rightarrow>
                       Completed (st4\<lparr>effects := effects st4 @
                         [InsertEvent \<lparr>event_participants = map vehicleId requests,
                            event_outcome = result,
                            vehicles_coordinated = length requests,
                            average_wait_time = averageOf (map waitTime requests)\<rparr>]\<rparr>))))"

text \<open>\<open>try { ... } finally { this.currentNegotiations.delete(negotiationId) }\<close>: no \<open>catch\<close>.\<close>

definition runAuctionNegotiation ::
  "adapter_reply \<Rightarrow> int \<Rightarrow> IntersectionAgent \<Rightarrow> IntersectionAgent outcome" where
  "runAuctionNegotiation reply now st =
     (let negotiationId = now;
          st1 = st\<lparr>currentNegotiations := List.insert negotiationId (currentNegotiations st)\<rparr>
      in case auctionBody reply now st1 of
           Raised e st2 \<Rightarrow>
             Raised e (st2\<lparr>currentNegotiations := removeAll negotiationId (currentNegotiations st2)\<rparr>)
         | Completed st2 \<Rightarrow>
             Completed (st2\<lparr>currentNegotiations := removeAll negotiationId (currentNegotiations st2)\<rparr>))"

definition queueLength :: "IntersectionAgent \<Rightarrow> string \<Rightarrow> nat" where
  "queueLength st dir =
     (case map_of (queuesByDirection st) dir of None \<Rightarrow> 0 | Some queue \<Rightarrow> length queue)"

definition acknowledge :: "message \<Rightarrow> string \<Rightarrow> IntersectionAgent \<Rightarrow> IntersectionAgent" where
  "acknowledge m dir st =
     sendMessage (sender m) Info
       (CrossingRequestAck (queueLength st dir) (estimateWaitTime st dir)) 5 st"

text \<open>The request object that \<open>handleCrossingRequest\<close> builds from the payload.\<close>

definition newRequest :: "int \<Rightarrow> (string \<times> real) list \<Rightarrow> payload \<Rightarrow> CrossingRequest" where
  "newRequest now tracker p =
     \<lparr>vehicleId = p_vehicleId p, company = p_company p, arrivalTime = now,
      waitTime = 0, priority = calculatePriority tracker p,
      passengers = or_default (p_passengers p) 0,
      batteryLevel = or_default (p_batteryLevel p) 100,
      direction = p_direction p\<rparr>"

text \<open>\<open>queue.push(request)\<close> on the queue that \<open>get\<close> found for the direction.\<close>

definition push :: "CrossingRequest \<Rightarrow> CrossingRequest list \<Rightarrow> IntersectionAgent \<Rightarrow> IntersectionAgent" where
  "push request queue st =
     st\<lparr>queuesByDirection :=
          AList.update (direction request) (queue @ [request]) (queuesByDirection st)\<rparr>"

text \<open>
  \<open>handleCrossingRequest\<close>. The queue found by \<open>get\<close> is the array that \<open>push\<close> and
  the auction mutate, so \<open>queue?.length\<close> in the acknowledgment is the length of the
  queue of that direction after the auction; with no such queue it is \<open>0\<close>. When the
  auction throws, the acknowledgment is not sent.
\<close>

definition handleCrossingRequest ::
  "adapter_reply \<Rightarrow> int \<Rightarrow> message \<Rightarrow> IntersectionAgent \<Rightarrow> IntersectionAgent outcome" where
  "handleCrossingRequest reply now m st =
     (let request = newRequest now (fairnessTracker st) (payload m)
      in case map_of (queuesByDirection st) (direction request) of
           None \<Rightarrow> Completed (acknowledge m (direction request) st)
         | Some queue \<Rightarrow>
             (let st1 = push request queue st
              in if shouldNegotiate st1 then
                   (case runAuctionNegotiation reply now st1 of
                      Raised e st2 \<Rightarrow> Raised e st2
                    | Completed st2 \<Rightarrow> Completed (acknowledge m (direction request) st2))
                 else Completed (acknowledge m (direction request) st1)))"

definition calculateAverageWaitTime :: "int \<Rightarrow> IntersectionAgent \<Rightarrow> real" where
  "calculateAverageWaitTime now st =
     (let waits = map (\<lambda>r. real_of_int (now - arrivalTime r) / 1000) (allRequests st)
      in if length waits > 0 then sum_list waits / real (length waits) else 0)"

definition queueLengths :: "IntersectionAgent \<Rightarrow> (string \<times> nat) list" where
  "queueLengths st = map (\<lambda>(dir, queue). (dir, length queue)) (queuesByDirection st)"

definition updateIntersectionState ::
  "int \<Rightarrow> bool option \<Rightarrow> real option \<Rightarrow> IntersectionAgent \<Rightarrow> IntersectionAgent" where
  "updateIntersectionState now active duration st =
     st\<lparr>effects := effects st @
          [UpsertState \<lparr>queue_lengths = queueLengths st,
             state_average_wait_time = calculateAverageWaitTime now st,
             active_negotiations = currentNegotiations st,
             emergency_active = active, emergency_duration = duration\<rparr>]\<rparr>"

definition yieldInstruction :: "CrossingRequest \<Rightarrow> effect" where
  "yieldInstruction request =
     InsertMessage \<lparr>to = ''vehicle-'' @ vehicleId request, kind = Emergency,
                    body = EmergencyYield ''emergency_vehicle'' True,
                    sent_priority = 1000, sent_ttl = 60\<rparr>"

text \<open>
  \<open>handleEmergencyPreemption\<close>: each queued request is sent a yield, each queue is
  emptied, and the state row is written with \<open>emergency_active\<close>. No field of the agent
  records the emergency.
\<close>

definition handleEmergencyPreemption ::
  "int \<Rightarrow> message \<Rightarrow> IntersectionAgent \<Rightarrow> IntersectionAgent outcome" where
  "handleEmergencyPreemption now m st =
     (let st1 = st\<lparr>effects := effects st @ map yieldInstruction (allRequests st),
                   queuesByDirection := map (\<lambda>(dir, queue). (dir, [])) (queuesByDirection st)\<rparr>
      in Completed (updateIntersectionState now (Some True) (p_duration (payload m)) st1))"

definition handleStatusQuery ::
  "int \<Rightarrow> message \<Rightarrow> IntersectionAgent \<Rightarrow> IntersectionAgent outcome" where
  "handleStatusQuery now m st =
     Completed (sendMessage (sender m) Info
       (StatusResponse (queueLengths st) (length (allRequests st))
          (length (currentNegotiations st)) (calculateAverageWaitTime now st)) 5 st)"

text \<open>\<open>processMessage\<close>: the handler registered for \<open>payload.type\<close>, if there is one.\<close>

definition processMessage ::
  "adapter_reply \<Rightarrow> int \<Rightarrow> message \<Rightarrow> IntersectionAgent \<Rightarrow> IntersectionAgent outcome" where
  "processMessage reply now m st =
     (if p_type (payload m) = Some ''crossing-request'' then handleCrossingRequest reply now m st
      else if p_type (payload m) = Some ''emergency-preemption'' then handleEmergencyPreemption now m st
      else if p_type (payload m) = Some ''status-query'' then handleStatusQuery now m st
      else Completed st)"

section \<open>Concrete inputs\<close>

text \<open>Ten participants, for writing concrete rounds.\<close>

definition ten :: "string list" where
  "ten = [''d1'', ''d2'', ''d3'', ''d4'', ''d5'', ''d6'', ''d7'', ''d8'', ''d9'', ''d10'']"

text \<open>
  The state in which a call ends, whether it returned or threw.
\<close>

definition stateOf :: "'s outcome \<Rightarrow> 's" where
  "stateOf r = (case r of Completed s \<Rightarrow> s | Raised e s \<Rightarrow> s)"

text \<open>
  Concrete messages, a parser of the one timestamp they carry, the agent of the
  intersection Van Ness and Market as its constructor leaves it, a world in which a
  message is pending, and the agent after a first vehicle has queued from the north.
\<close>

definition crossingRequest :: "string \<Rightarrow> string \<Rightarrow> string \<Rightarrow> string \<Rightarrow> message" where
  "crossingRequest ident vehicle fleet dir =
     \<lparr>msg_id = ident, timestamp = ''1970-01-01T00:00:01.000Z'', sender = ''vehicle-'' @ vehicle,
      recipient = ''intersection-vanness-market'', message_type = Info, msg_priority = 5,
      payload = \<lparr>p_type = Some ''crossing-request'', p_proposalId = None,
                 p_vehicleId = vehicle, p_company = fleet, p_waitTime = None,
                 p_passengers = Some 2, p_batteryLevel = Some 80, p_direction = dir,
                 p_duration = None\<rparr>,
      ttl = 60\<rparr>"

definition emergencyPreemption :: "string \<Rightarrow> message" where
  "emergencyPreemption ident =
     \<lparr>msg_id = ident, timestamp = ''1970-01-01T00:00:01.000Z'', sender = ''district-soma'',
      recipient = ''intersection-vanness-market'', message_type = Emergency, msg_priority = 1000,
      payload = \<lparr>p_type = Some ''emergency-preemption'', p_proposalId = None,
                 p_vehicleId = [], p_company = [], p_waitTime = None,
                 p_passengers = None, p_batteryLevel = None, p_direction = [],
                 p_duration = Some 300\<rparr>,
      ttl = 60\<rparr>"

definition epochMs :: "string \<Rightarrow> int option" where
  "epochMs s = (if s = ''1970-01-01T00:00:01.000Z'' then Some 1000 else None)"

definition vanNessMarket :: IntersectionAgent where
  "vanNessMarket = newIntersectionAgent ''vanness-market''"

definition pendingWorld :: "'s \<Rightarrow> string \<Rightarrow> 's world" where
  "pendingWorld s ident = \<lparr>agent = s, statuses = [ident \<mapsto> Pending], invoked = []\<rparr>"

definition northQueued :: IntersectionAgent where
  "northQueued =
     stateOf (processMessage KeyMissing 2000
                (crossingRequest ''m1'' ''w-17'' ''waymo'' ''north'') vanNessMarket)"

lemmas agent_eval =
  processMessage_def handleCrossingRequest_def newRequest_def push_def
  handleEmergencyPreemption_def
  handleStatusQuery_def runAuctionNegotiation_def auctionBody_def executeCrossingOrder_def
  updateFairnessScores_def grantCrossing_def isQueued_def lookupWait_def acknowledge_def
  queueLength_def estimateWaitTime_def shouldNegotiate_def calculatePriority_def
  or_default_def below_def refresh_def spread_def allRequests_def sendMessage_def
  updateIntersectionState_def queueLengths_def calculateAverageWaitTime_def
  yieldInstruction_def averageOf_def applyAdjustments_def decayAll_def companyPenalty_def
  errorObject_def newIntersectionAgent_def initializeQueues_def directions_def
  crossingRequest_def emergencyPreemption_def vanNessMarket_def stateOf_def Let_def

text \<open>
  More concrete values: an auction result that grants a crossing order with wait
  times, the agent after an emergency preemption has reached it, and that agent after
  a vehicle has then queued from the east.
\<close>

definition slots :: "string list \<Rightarrow> (string \<times> real) list \<Rightarrow> AuctionResult" where
  "slots order wts = \<lparr>error_text = None, crossingOrder = Some order, waitTimes = Some wts,
                       fairnessAdjustments = Some []\<rparr>"

definition afterEmergency :: IntersectionAgent where
  "afterEmergency = stateOf (processMessage KeyMissing 4000 (emergencyPreemption ''m3'') northQueued)"

definition eastQueued :: IntersectionAgent where
  "eastQueued =
     stateOf (processMessage KeyMissing 5000
                (crossingRequest ''m4'' ''c-9'' ''cruise'' ''east'') afterEmergency)"

text \<open>
  The words of the specification about a round, written independently of the polling
  loop, for stating what the loop returns. A response to a proposal is a message of type
  acceptance or rejection that carries the proposal id. \<open>rowsSeen\<close> is every row that
  a list of polls returned, in order. The vote of a sender is its last response among
  those rows. The voters are the senders of responses, each once, and \<open>accepting\<close> is
  the number of voters whose vote is an acceptance.
\<close>

definition isResponseTo :: "string \<Rightarrow> message \<Rightarrow> bool" where
  "isResponseTo proposalId msg \<longleftrightarrow>
     (message_type msg = Acceptance \<or> message_type msg = Rejection)
     \<and> p_proposalId (payload msg) = Some proposalId"

definition rowsSeen :: "(int \<times> message list option) list \<Rightarrow> message list" where
  "rowsSeen polls = concat (map (\<lambda>obs. case snd obs of None \<Rightarrow> [] | Some rows \<Rightarrow> rows) polls)"

fun lastVote :: "string \<Rightarrow> message list \<Rightarrow> string \<Rightarrow> bool option" where
  "lastVote proposalId [] s = None"
| "lastVote proposalId (msg # rows) s =
     (case lastVote proposalId rows s of
        Some v \<Rightarrow> Some v
      | None \<Rightarrow>
          if isResponseTo proposalId msg \<and> sender msg = s
          then (if message_type msg = Acceptance then Some True else Some False)
          else None)"

definition voters :: "string \<Rightarrow> message list \<Rightarrow> string list" where
  "voters proposalId rows = remdups (map sender (filter (isResponseTo proposalId) rows))"

definition accepting :: "string \<Rightarrow> message list \<Rightarrow> nat" where
  "accepting proposalId rows =
     length (filter (\<lambda>s. lastVote proposalId rows s = Some True) (voters proposalId rows))"

text \<open>
  The invariant of the polling loop: the map has one entry per voter among the rows
  seen so far, holding that voter's vote.
\<close>

definition tallies :: "string \<Rightarrow> (string \<times> bool) list \<Rightarrow> message list \<Rightarrow> bool" where
  "tallies pid rs seen \<longleftrightarrow> distinct (map fst rs) \<and> (\<forall>s. map_of rs s = lastVote pid seen s)"

text \<open>
  Notions for stating what auction rounds do to the tracker. \<open>loggedRounds\<close> is the
  list of negotiation events the agent has inserted: a round inserts one, with the result
  it executed, exactly when it runs to its end. \<open>deliver\<close> is the life of the agent:
  messages are processed one after another, each with the clock reading and the answer
  of the adapter at that moment, and a handler that throws leaves the state as it was
  at the throw. \<open>adjustmentTo\<close> is the sum of the adjustments that a result carries
  for one company.
\<close>

definition loggedRounds :: "IntersectionAgent \<Rightarrow> negotiation_event list" where
  "loggedRounds st =
     concat (map (\<lambda>e. case e of InsertEvent ev \<Rightarrow> [ev] | _ \<Rightarrow> []) (effects st))"



text \<open>
  Concrete values: a result of the adapter with a crossing order and fairness
  adjustments, an agent whose tracker holds a penalty of 20 for one company, four
  crossing requests of which the second and fourth end in a completed round and the
  third in a round that throws, and a crossing request from a vehicle that reports an
  empty battery and no passengers.
\<close>

definition ruling :: "string list \<Rightarrow> (string \<times> real) list \<Rightarrow> AuctionResult" where
  "ruling order adjustments = \<lparr>error_text = None, crossingOrder = Some order, waitTimes = Some [],
                               fairnessAdjustments = Some adjustments\<rparr>"



definition deadBattery :: message where
  "deadBattery =
     (crossingRequest ''m7'' ''w-30'' ''waymo'' ''south'')
       \<lparr>payload := (payload (crossingRequest ''m7'' ''w-30'' ''waymo'' ''south''))
                      \<lparr>p_passengers := Some 0, p_batteryLevel := Some 0\<rparr>\<rparr>"

section \<open>Properties of the consensus round\<close>

lemma majorityCount_le: "majorityCount n \<le> int a \<longleftrightarrow> 51 * n \<le> 100 * a"
proof -
  have "majorityCount n \<le> int a \<longleftrightarrow> real n * 0.51 \<le> real a"
    by (simp add: majorityCount_def ceiling_le_iff)
  also have "\<dots> \<longleftrightarrow> real (51 * n) \<le> real (100 * a)"
    by (simp add: mult.commute)
  also have "\<dots> \<longleftrightarrow> 51 * n \<le> 100 * a"
    by (simp only: of_nat_le_iff)
  finally show ?thesis .
qed

lemma quorumCount_le: "quorumCount n \<le> int k \<longleftrightarrow> 7 * n \<le> 10 * k"
proof -
  have "quorumCount n \<le> int k \<longleftrightarrow> real n * 0.7 \<le> real k"
    by (simp add: quorumCount_def ceiling_le_iff)
  also have "\<dots> \<longleftrightarrow> real (7 * n) \<le> real (10 * k)"
    by (simp add: mult.commute)
  also have "\<dots> \<longleftrightarrow> 7 * n \<le> 10 * k"
    by (simp only: of_nat_le_iff)
  finally show ?thesis .
qed

lemma recordResponses_Nil: "recordResponses [] rs = rs"
  by (simp add: recordResponses_def)

lemma pollResponses_returns:
  assumes "(now, table) \<in> set trace" and "\<not> now - startTime < timeoutMs"
  shows "\<exists>rs'. pollResponses pid n timeoutMs startTime trace rs = Some rs'"
  using assms
proof (induction trace arbitrary: rs)
  case Nil
  then show ?case by simp
next
  case (Cons obs trace)
  obtain t tb where obs: "obs = (t, tb)" by (cases obs)
  show ?case
  proof (cases "(now, table) = obs")
    case True
    with Cons.prems obs show ?thesis by simp
  next
    case False
    with Cons.prems have "(now, table) \<in> set trace" by simp
    from Cons.IH [OF this Cons.prems(2)] show ?thesis
      by (simp add: obs Let_def)
  qed
qed

lemma pollResponses_exit:
  assumes "pollResponses pid n timeoutMs startTime trace rs = Some rs'"
  shows "quorumCount n \<le> int (length rs') \<or>
         (\<exists>obs \<in> set trace. \<not> fst obs - startTime < timeoutMs)"
  using assms
proof (induction trace arbitrary: rs)
  case Nil
  then show ?case by simp
next
  case (Cons obs trace)
  obtain t tb where obs: "obs = (t, tb)" by (cases obs)
  from Cons.prems Cons.IH show ?case
    by (auto simp: obs Let_def split: if_splits)
qed

lemma pollResponses_silent:
  assumes "\<forall>obs \<in> set pre. silent pid (snd obs)"
    and "\<not> last_now - startTime < timeoutMs"
  shows "pollResponses pid n timeoutMs startTime (pre @ (last_now, table) # rest) [] = Some []"
  using assms
proof (induction pre)
  case Nil
  then show ?case by simp
next
  case (Cons obs pre)
  obtain t tb where obs: "obs = (t, tb)" by (cases obs)
  from Cons.prems have "silent pid tb" by (simp add: obs)
  then have "(case tb of None \<Rightarrow> [] | Some rows \<Rightarrow> recordResponses (selectResponses pid rows) []) = []"
    by (auto simp: silent_def recordResponses_Nil split: option.splits)
  with Cons show ?case
    by (simp add: obs Let_def)
qed

lemma recordResponses_distinct:
  "distinct (map fst rs) \<Longrightarrow> distinct (map fst (recordResponses data rs))"
  unfolding recordResponses_def
  by (induction data arbitrary: rs) (simp_all add: AList.distinct_update)

lemma pollResponses_distinct:
  assumes "pollResponses pid n timeoutMs startTime trace rs = Some rs'" and "distinct (map fst rs)"
  shows "distinct (map fst rs')"
  using assms
proof (induction trace arbitrary: rs)
  case Nil
  then show ?case by simp
next
  case (Cons obs trace)
  obtain t tb where obs: "obs = (t, tb)" by (cases obs)
  from Cons.prems Cons.IH show ?case
    by (auto simp: obs Let_def recordResponses_distinct split: if_splits option.splits)
qed

lemma recordResponses_keys:
  "fst ` set (recordResponses data rs) = fst ` set rs \<union> sender ` set data"
  unfolding recordResponses_def
  by (induction data arbitrary: rs) (auto simp: AList.dom_update)

lemma pollResponses_keys:
  assumes "pollResponses pid n timeoutMs startTime trace rs = Some rs'"
  shows "fst ` set rs' \<subseteq> fst ` set rs \<union> responders pid trace"
  using assms
proof (induction trace arbitrary: rs)
  case Nil
  then show ?case by simp
next
  case (Cons obs trace)
  obtain t tb where obs: "obs = (t, tb)" by (cases obs)
  have mono: "responders pid trace \<subseteq> responders pid (obs # trace)"
    by (auto simp: responders_def)
  have here: "\<And>rows. tb = Some rows \<Longrightarrow> sender ` set (selectResponses pid rows) \<subseteq> responders pid (obs # trace)"
    by (auto simp: responders_def obs)
  show ?case
  proof (cases "t - startTime < timeoutMs")
    case False
    with Cons.prems show ?thesis by (auto simp: obs)
  next
    case True
    define rs1 where "rs1 = (case tb of None \<Rightarrow> rs | Some rows \<Rightarrow> recordResponses (selectResponses pid rows) rs)"
    have k1: "fst ` set rs1 \<subseteq> fst ` set rs \<union> responders pid (obs # trace)"
      using here by (auto simp: rs1_def recordResponses_keys split: option.splits)
    show ?thesis
    proof (cases "quorumCount n \<le> int (length rs1)")
      case True
      with Cons.prems \<open>t - startTime < timeoutMs\<close> have "rs' = rs1"
        by (simp add: obs rs1_def Let_def)
      with k1 show ?thesis by simp
    next
      case False
      with Cons.prems \<open>t - startTime < timeoutMs\<close>
      have "pollResponses pid n timeoutMs startTime trace rs1 = Some rs'"
        by (simp add: obs rs1_def Let_def)
      from Cons.IH [OF this] k1 mono show ?thesis by blast
    qed
  qed
qed

lemma majority_small:
  assumes "1 \<le> n" and "n \<le> 50"
  shows "majorityCount n \<le> int a \<longleftrightarrow> n < 2 * a"
  using assms by (simp add: majorityCount_le) arith


lemma gatherConsensus_returns:
  assumes "(now, table) \<in> set trace" and "\<not> now - startTime < timeoutMs"
  shows "\<exists>r. gatherConsensus pid participants timeoutMs startTime trace = Some r"
  using pollResponses_returns [OF assms] by (auto simp: gatherConsensus_def)

text \<open>
  Claim C9. When no response to the proposal is seen before the clock reaches the
  timeout, \<open>gatherConsensus\<close> returns, and it returns \<open>approved = true\<close> with an
  empty \<open>responses\<close> map: zero approvals meet the threshold
  \<open>Math.ceil(0 * 0.51) = 0\<close>.
\<close>

theorem silent_round_is_approved:
  assumes "\<forall>obs \<in> set pre. silent pid (snd obs)"
    and "\<not> last_now - startTime < timeoutMs"
  shows "gatherConsensus pid participants timeoutMs startTime (pre @ (last_now, table) # rest)
           = Some \<lparr>approved = True, responses = []\<rparr>"
proof -
  have "majorityCount 0 = 0" by (simp add: majorityCount_def)
  then have "decide [] = \<lparr>approved = True, responses = []\<rparr>"
    by (simp add: decide_def countApprovals_def)
  with pollResponses_silent [OF assms] show ?thesis
    by (simp add: gatherConsensus_def)
qed

theorem silent_round_is_approved_witness:
  "gatherConsensus ''p-7'' [''district-1'', ''district-2'', ''fleet-waymo''] 5000 1000
     [(1000, Some []), (1100, None), (1200, Some [response ''district-9'' Acceptance ''p-6'']),
      (6000, Some [response ''district-1'' Acceptance ''p-7''])]
   = Some \<lparr>approved = True, responses = []\<rparr>"
  using silent_round_is_approved [of "[(1000, Some []), (1100, None), (1200, Some [response ''district-9'' Acceptance ''p-6''])]"
      "''p-7''" 6000 1000 5000 "[''district-1'', ''district-2'', ''fleet-waymo'']"
      "Some [response ''district-1'' Acceptance ''p-7'']" "[]"]
  by (simp add: silent_def selectResponses_def response_def)

text \<open>
  Claim C6 as stated fails where no response was received: the round is approved, and
  zero acceptances are not more than half of zero responses.
\<close>

theorem approval_rule_counterexample:
  "gatherConsensus ''p-3'' [''district-1'', ''district-2''] 5000 0 [(0, Some []), (5000, Some [])]
     = Some \<lparr>approved = True, responses = []\<rparr>
   \<and> \<not> length ([] :: (string \<times> bool) list) < 2 * countApprovals []"
  by (simp add: gatherConsensus_def quorumCount_def majorityCount_def decide_def
      countApprovals_def recordResponses_def selectResponses_def)

text \<open>
  Claim C5 as stated fails on a round of 10 participants in which 6 responses (4
  acceptances, 2 rejections) have arrived when the timeout ends the loop: the result is
  \<open>approved = true\<close>, not a timeout.
\<close>

theorem ten_participants_round_counterexample:
  "gatherConsensus ''p-5'' ten 5000 0
     [(0, Some []),
      (100, Some [response ''d1'' Acceptance ''p-5'', response ''d2'' Acceptance ''p-5'',
                  response ''d3'' Rejection ''p-5'']),
      (4900, Some [response ''d1'' Acceptance ''p-5'', response ''d2'' Acceptance ''p-5'',
                   response ''d3'' Rejection ''p-5'', response ''d4'' Acceptance ''p-5'',
                   response ''d5'' Acceptance ''p-5'', response ''d6'' Rejection ''p-5'']),
      (5000, None)]
   = Some \<lparr>approved = True,
            responses = [(''d1'', True), (''d2'', True), (''d3'', False),
                         (''d4'', True), (''d5'', True), (''d6'', False)]\<rparr>"
  by (simp add: gatherConsensus_def ten_def quorumCount_def majorityCount_def decide_def
      countApprovals_def recordResponses_def selectResponses_def response_def)

section \<open>Properties of the priority score and of the fairness tracker\<close>

lemma or_default_Some_0: "or_default (Some x) 0 = x"
  by (simp add: or_default_def)


lemma applyAdjustments_other:
  "c \<notin> fst ` set adjustments \<Longrightarrow> map_of (applyAdjustments adjustments tracker) c = map_of tracker c"
  unfolding applyAdjustments_def
proof (induction adjustments arbitrary: tracker)
  case Nil
  then show ?case by simp
next
  case (Cons a adjustments)
  obtain k d where a: "a = (k, d)" by (cases a)
  from Cons.prems have "k \<noteq> c" and rest: "c \<notin> fst ` set adjustments"
    by (auto simp: a)
  from Cons.IH [OF rest] \<open>k \<noteq> c\<close> show ?case
    by (simp add: a AList.update_conv')
qed





section \<open>Properties of message delivery\<close>

lemma northQueued_eq:
  "northQueued =
     \<lparr>intersectionId = ''vanness-market'',
      queuesByDirection =
        [(''north'', [\<lparr>vehicleId = ''w-17'', company = ''waymo'', arrivalTime = 2000,
                        waitTime = 0, priority = 10, passengers = 2, batteryLevel = 80,
                        direction = ''north''\<rparr>]),
         (''south'', []), (''east'', []), (''west'', []), (''northeast'', []),
         (''northwest'', []), (''southeast'', []), (''southwest'', [])],
      currentNegotiations = [], fairnessTracker = [],
      effects = [InsertMessage \<lparr>to = ''vehicle-w-17'', kind = Info,
                   body = CrossingRequestAck 1 15, sent_priority = 5, sent_ttl = 60\<rparr>]\<rparr>"
  by (simp add: northQueued_def agent_eval)

text \<open>
  Claim C3, as amended. A message is expired when its timestamp parses and its age
  exceeds \<open>ttl\<close> seconds. An expired message is marked Expired and
  \<open>processMessage\<close> is not invoked on it: the history of invocations and the agent
  are unchanged. Any other message is handed to \<open>processMessage\<close>, and it is marked
  Delivered when \<open>processMessage\<close> returns without throwing.
\<close>

theorem ttl_rule:
  "(is_expired getTime now m \<longleftrightarrow> (\<exists>t. getTime (timestamp m) = Some t \<and> now - t > ttl m * 1000))
   \<and> (is_expired getTime now m \<longrightarrow>
        handleIncomingMessage pm getTime now m w
          = Completed (w\<lparr>statuses := (statuses w)(msg_id m \<mapsto> Expired)\<rparr>))
   \<and> (\<not> is_expired getTime now m \<longrightarrow>
        invoked (stateOf (handleIncomingMessage pm getTime now m w)) = invoked w @ [msg_id m]
        \<and> (\<forall>s. pm m (agent w) = Completed s \<longrightarrow>
              handleIncomingMessage pm getTime now m w
                = Completed \<lparr>agent = s, statuses = (statuses w)(msg_id m \<mapsto> Delivered),
                             invoked = invoked w @ [msg_id m]\<rparr>))"
proof -
  have expiry: "is_expired getTime now m \<longleftrightarrow> (\<exists>t. getTime (timestamp m) = Some t \<and> now - t > ttl m * 1000)"
    by (cases "getTime (timestamp m)") (simp_all add: is_expired_def messageAge_def)
  have old: "is_expired getTime now m \<Longrightarrow>
        handleIncomingMessage pm getTime now m w
          = Completed (w\<lparr>statuses := (statuses w)(msg_id m \<mapsto> Expired)\<rparr>)"
    by (simp add: handleIncomingMessage_def updateMessageStatus_def)
  have fresh: "\<not> is_expired getTime now m \<Longrightarrow>
        invoked (stateOf (handleIncomingMessage pm getTime now m w)) = invoked w @ [msg_id m]"
    by (cases "pm m (agent w)")
       (simp_all add: handleIncomingMessage_def updateMessageStatus_def stateOf_def Let_def)
  have handled: "\<And>s. \<not> is_expired getTime now m \<Longrightarrow> pm m (agent w) = Completed s \<Longrightarrow>
              handleIncomingMessage pm getTime now m w
                = Completed \<lparr>agent = s, statuses = (statuses w)(msg_id m \<mapsto> Delivered),
                             invoked = invoked w @ [msg_id m]\<rparr>"
    by (simp add: handleIncomingMessage_def updateMessageStatus_def Let_def)
  from expiry old fresh handled show ?thesis by blast
qed

text \<open>
  Claim C3 as stated fails on a message that is not expired and whose handler throws:
  the handler is invoked and the message is left Pending, not Delivered.
\<close>

theorem ttl_rule_counterexample:
  "\<not> is_expired epochMs 2000 (crossingRequest ''m1'' ''w-17'' ''waymo'' ''north'')
   \<and> (case handleIncomingMessage (\<lambda>m s. Raised HandlerError s) epochMs 2000
              (crossingRequest ''m1'' ''w-17'' ''waymo'' ''north'') (pendingWorld () ''m1'') of
         Raised e w' \<Rightarrow> invoked w' = [''m1''] \<and> statuses w' ''m1'' = Some Pending
       | Completed w' \<Rightarrow> False)"
  by (simp add: handleIncomingMessage_def is_expired_def messageAge_def epochMs_def
      crossingRequest_def pendingWorld_def Let_def)

theorem ttl_rule_witness:
  "handleIncomingMessage (processMessage KeyMissing 100000) epochMs 100000
      (crossingRequest ''m1'' ''w-17'' ''waymo'' ''north'') (pendingWorld vanNessMarket ''m1'')
     = Completed \<lparr>agent = vanNessMarket, statuses = [''m1'' \<mapsto> Expired], invoked = []\<rparr>
   \<and> handleIncomingMessage (\<lambda>m s. Completed s) epochMs 61000
      (crossingRequest ''m1'' ''w-17'' ''waymo'' ''north'') (pendingWorld vanNessMarket ''m1'')
     = Completed \<lparr>agent = vanNessMarket, statuses = [''m1'' \<mapsto> Delivered], invoked = [''m1'']\<rparr>"
proof -
  have late: "is_expired epochMs 100000 (crossingRequest ''m1'' ''w-17'' ''waymo'' ''north'')"
    by (simp add: is_expired_def messageAge_def epochMs_def crossingRequest_def)
  have in_time: "\<not> is_expired epochMs 61000 (crossingRequest ''m1'' ''w-17'' ''waymo'' ''north'')"
    by (simp add: is_expired_def messageAge_def epochMs_def crossingRequest_def)
  show ?thesis
    using late in_time
      ttl_rule [of epochMs 100000 "crossingRequest ''m1'' ''w-17'' ''waymo'' ''north''"
                   "processMessage KeyMissing 100000" "pendingWorld vanNessMarket ''m1''"]
      ttl_rule [of epochMs 61000 "crossingRequest ''m1'' ''w-17'' ''waymo'' ''north''"
                   "\<lambda>m s. Completed s" "pendingWorld vanNessMarket ''m1''"]
    by (simp add: pendingWorld_def crossingRequest_def)
qed

text \<open>
  Claim C2, as amended. For a message that is not expired, an exception thrown by
  \<open>processMessage\<close> is not caught: \<open>handleIncomingMessage\<close> throws it on to its
  caller and the status of the message is left as it was. The message is marked
  Delivered only when \<open>processMessage\<close> returns without throwing.
\<close>

theorem handler_exception_propagates:
  assumes "\<not> is_expired getTime now m"
  shows "(\<forall>e s. pm m (agent w) = Raised e s \<longrightarrow>
            handleIncomingMessage pm getTime now m w
              = Raised e \<lparr>agent = s, statuses = statuses w, invoked = invoked w @ [msg_id m]\<rparr>)
       \<and> (\<forall>s. pm m (agent w) = Completed s \<longrightarrow>
            handleIncomingMessage pm getTime now m w
              = Completed \<lparr>agent = s, statuses = (statuses w)(msg_id m \<mapsto> Delivered),
                           invoked = invoked w @ [msg_id m]\<rparr>)"
  using assms by (simp add: handleIncomingMessage_def updateMessageStatus_def Let_def)

text \<open>
  Claim C2 as stated fails on a crossing request that starts an auction while the API
  key of the adapter is not configured: the handler throws, \<open>handleIncomingMessage\<close>
  throws the same error, and the message stays Pending.
\<close>

theorem handler_exception_propagates_counterexample:
  "(case handleIncomingMessage (processMessage KeyMissing 3000) epochMs 3000
          (crossingRequest ''m2'' ''z-4'' ''zoox'' ''south'') (pendingWorld northQueued ''m2'') of
      Raised e w' \<Rightarrow> e = ConfigError \<and> statuses w' ''m2'' = Some Pending
    | Completed w' \<Rightarrow> False)"
  by (simp add: handleIncomingMessage_def is_expired_def messageAge_def epochMs_def
      pendingWorld_def northQueued_eq agent_eval)

theorem handler_exception_propagates_witness:
  "(case handleIncomingMessage (processMessage (Reply Unparsable) 3000) epochMs 3000
          (crossingRequest ''m2'' ''z-4'' ''zoox'' ''south'') (pendingWorld northQueued ''m2'') of
      Raised e w' \<Rightarrow> e = TypeError \<and> statuses w' = [''m2'' \<mapsto> Pending] \<and> invoked w' = [''m2'']
    | Completed w' \<Rightarrow> False)"
proof -
  have in_time: "\<not> is_expired epochMs 3000 (crossingRequest ''m2'' ''z-4'' ''zoox'' ''south'')"
    by (simp add: is_expired_def messageAge_def epochMs_def crossingRequest_def)
  have "\<exists>s. processMessage (Reply Unparsable) 3000 (crossingRequest ''m2'' ''z-4'' ''zoox'' ''south'')
          (agent (pendingWorld northQueued ''m2'')) = Raised TypeError s"
    by (simp add: pendingWorld_def northQueued_eq agent_eval)
  then obtain s where "processMessage (Reply Unparsable) 3000 (crossingRequest ''m2'' ''z-4'' ''zoox'' ''south'')
          (agent (pendingWorld northQueued ''m2'')) = Raised TypeError s" ..
  with handler_exception_propagates [OF in_time, of "processMessage (Reply Unparsable) 3000"
         "pendingWorld northQueued ''m2''"]
  show ?thesis
    by (simp add: pendingWorld_def crossingRequest_def)
qed

section \<open>Properties of the intersection agent\<close>

text \<open>
  The constructor leaves the agent with a queue for each of the eight directions, in
  this order.
\<close>

lemma keys_initial: "map fst (queuesByDirection (newIntersectionAgent ident)) = directions"
  by (simp add: newIntersectionAgent_def initializeQueues_def directions_def)

lemma map_of_unknown:
  assumes "map fst (queuesByDirection st) = directions" and "d \<notin> set directions"
  shows "map_of (queuesByDirection st) d = None"
proof -
  from assms have "d \<notin> fst ` set (queuesByDirection st)"
    by (metis set_map)
  then show ?thesis by (simp add: map_of_eq_None_iff)
qed

text \<open>
  Claim C10. When the direction of a crossing request is none of the eight directions
  for which the agent has a queue, \<open>handleCrossingRequest\<close> returns without an error:
  no queue changes, no auction runs, and the only effect is an acknowledgment to the
  sender that reports position 0 and estimated wait 0.
\<close>

theorem unknown_direction_is_acknowledged:
  assumes "map fst (queuesByDirection st) = directions"
    and "p_direction (payload m) \<notin> set directions"
  shows "handleCrossingRequest reply now m st
           = Completed (st\<lparr>effects := effects st @
               [InsertMessage \<lparr>to = sender m, kind = Info, body = CrossingRequestAck 0 0,
                               sent_priority = 5, sent_ttl = 60\<rparr>]\<rparr>)"
proof -
  have none: "map_of (queuesByDirection st) (p_direction (payload m)) = None"
    using map_of_unknown [OF assms] .
  then show ?thesis
    by (simp add: handleCrossingRequest_def newRequest_def acknowledge_def queueLength_def
        estimateWaitTime_def sendMessage_def Let_def)
qed

theorem unknown_direction_is_acknowledged_witness:
  "handleCrossingRequest (Reply RequestFailed) 7000
      (crossingRequest ''m6'' ''w-21'' ''waymo'' ''upward'') northQueued
     = Completed (northQueued\<lparr>effects := effects northQueued @
         [InsertMessage \<lparr>to = ''vehicle-w-21'', kind = Info, body = CrossingRequestAck 0 0,
                         sent_priority = 5, sent_ttl = 60\<rparr>]\<rparr>)"
proof -
  have keys: "map fst (queuesByDirection northQueued) = directions"
    by (simp add: northQueued_eq directions_def)
  have unknown: "p_direction (payload (crossingRequest ''m6'' ''w-21'' ''waymo'' ''upward'')) \<notin> set directions"
    by (simp add: crossingRequest_def directions_def)
  from unknown_direction_is_acknowledged [OF keys unknown, of "Reply RequestFailed" 7000]
  show ?thesis by (simp add: crossingRequest_def)
qed

lemma emptied_count:
  "length (filter (\<lambda>(dir, queue). length queue > 0) (map (\<lambda>(dir, queue). (dir, [])) qs)) = 0"
  by (induction qs) (simp_all add: case_prod_beta)

lemma emptied_lookup:
  "k \<in> fst ` set qs \<Longrightarrow> map_of (map (\<lambda>(dir, queue). (dir, [])) qs) k = Some []"
  by (induction qs) auto

lemma emptied_requests:
  "concat (map snd (map (\<lambda>(dir, queue). (dir, [])) qs)) = []"
  by (induction qs) (simp_all add: case_prod_beta)

lemma emptied_lengths:
  "map (\<lambda>(dir, queue). (dir, length queue)) (map (\<lambda>(dir, queue). (dir, [])) qs)
     = map (\<lambda>(dir, queue). (dir, 0)) qs"
  by (induction qs) (simp_all add: case_prod_beta)

lemma first_vehicle_count:
  "map_of qs k = Some [] \<Longrightarrow>
     length (filter (\<lambda>(dir, queue). length queue > 0) (AList.update k [r] qs))
       = Suc (length (filter (\<lambda>(dir, queue). length queue > 0) qs))"
  by (induction qs) (auto split: if_splits)

lemma emergency_result:
  "handleEmergencyPreemption now m st =
     Completed (st\<lparr>effects := effects st @ map yieldInstruction (allRequests st) @
                   [UpsertState \<lparr>queue_lengths = map (\<lambda>(dir, queue). (dir, 0)) (queuesByDirection st),
                      state_average_wait_time = 0,
                      active_negotiations = currentNegotiations st,
                      emergency_active = Some True,
                      emergency_duration = p_duration (payload m)\<rparr>],
                 queuesByDirection := map (\<lambda>(dir, queue). (dir, [])) (queuesByDirection st)\<rparr>)"
  by (simp add: handleEmergencyPreemption_def updateIntersectionState_def Let_def
      queueLengths_def calculateAverageWaitTime_def allRequests_def emptied_requests
      emptied_lengths del: map_map)

lemma after_emergency_requests:
  assumes d1: "p_direction (payload m1) \<in> fst ` set qs"
    and d2: "p_direction (payload m2) \<in> fst ` set qs"
    and neq: "p_direction (payload m1) \<noteq> p_direction (payload m2)"
    and quiet: "currentNegotiations st0 = []"
    and empty: "queuesByDirection st0 = map (\<lambda>(dir, queue). (dir, [])) qs"
  shows "\<exists>st1. handleCrossingRequest reply1 t1 m1 st0 = Completed st1
           \<and> shouldNegotiate (push (newRequest t2 (fairnessTracker st1) (payload m2)) [] st1)
           \<and> handleCrossingRequest reply2 t2 m2 st1 =
               (case runAuctionNegotiation reply2 t2
                       (push (newRequest t2 (fairnessTracker st1) (payload m2)) [] st1) of
                  Raised e st2 \<Rightarrow> Raised e st2
                | Completed st2 \<Rightarrow> Completed (acknowledge m2 (p_direction (payload m2)) st2))"
proof -
  define r1 where "r1 = newRequest t1 (fairnessTracker st0) (payload m1)"
  define pushed where "pushed = push r1 [] st0"
  define st1 where "st1 = acknowledge m1 (p_direction (payload m1)) pushed"
  define r2 where "r2 = newRequest t2 (fairnessTracker st1) (payload m2)"
  have dir1: "direction r1 = p_direction (payload m1)" and dir2: "direction r2 = p_direction (payload m2)"
    by (simp_all add: r1_def r2_def newRequest_def)
  have look1: "map_of (queuesByDirection st0) (p_direction (payload m1)) = Some []"
    using emptied_lookup [OF d1] by (simp add: empty)
  have look2: "map_of (queuesByDirection st0) (p_direction (payload m2)) = Some []"
    using emptied_lookup [OF d2] by (simp add: empty)
  have q_pushed: "queuesByDirection pushed = AList.update (p_direction (payload m1)) [r1] (queuesByDirection st0)"
    by (simp add: pushed_def push_def dir1)
  have count1: "length (filter (\<lambda>(dir, queue). length queue > 0) (queuesByDirection pushed)) = 1"
    using first_vehicle_count [OF look1, of r1] emptied_count [of qs]
    by (simp add: q_pushed empty)
  then have calm: "\<not> shouldNegotiate pushed"
    by (simp add: shouldNegotiate_def Let_def)
  have first: "handleCrossingRequest reply1 t1 m1 st0 = Completed st1"
    using look1 calm
    by (simp add: handleCrossingRequest_def Let_def r1_def [symmetric] dir1
        pushed_def [symmetric] st1_def)
  have q1: "queuesByDirection st1 = queuesByDirection pushed"
    and n1: "currentNegotiations st1 = []"
    by (simp_all add: st1_def acknowledge_def sendMessage_def pushed_def push_def quiet)
  have look2': "map_of (queuesByDirection st1) (p_direction (payload m2)) = Some []"
    using look2 neq by (simp add: q1 q_pushed AList.update_conv')
  have "length (filter (\<lambda>(dir, queue). length queue > 0) (queuesByDirection (push r2 [] st1))) = 2"
    using first_vehicle_count [OF look2', of r2] count1
    by (simp add: push_def dir2 q1)
  then have trigger: "shouldNegotiate (push r2 [] st1)"
    by (simp add: shouldNegotiate_def Let_def push_def n1)
  have second: "handleCrossingRequest reply2 t2 m2 st1 =
               (case runAuctionNegotiation reply2 t2 (push r2 [] st1) of
                  Raised e st2 \<Rightarrow> Raised e st2
                | Completed st2 \<Rightarrow> Completed (acknowledge m2 (p_direction (payload m2)) st2))"
    using look2' trigger
    by (simp add: handleCrossingRequest_def Let_def r2_def [symmetric] dir2
        split: outcome.splits)
  from first trigger second show ?thesis
    unfolding r2_def by blast
qed

text \<open>
  Claim C4, as amended. An emergency-preemption message empties every directional
  queue after a yield instruction has been sent to each queued vehicle, and writes the
  state row with the emergency flag and the duration. The agent itself keeps no record
  of the emergency: negotiations in flight and the tracker are unchanged, and requests
  that arrive afterwards trigger an auction under the usual rule. After the
  preemption, with no negotiation in flight, a request from one known direction is
  queued and acknowledged, and a request from a second known direction makes
  \<open>shouldNegotiate\<close> true and runs the auction, whatever the clock readings.
\<close>

theorem emergency_preemption_clears_queues:
  "\<exists>st0. handleEmergencyPreemption now m st = Completed st0
      \<and> queuesByDirection st0 = map (\<lambda>(dir, queue). (dir, [])) (queuesByDirection st)
      \<and> (\<exists>row. effects st0 = effects st @ map yieldInstruction (allRequests st) @ [UpsertState row]
                 \<and> emergency_active row = Some True
                 \<and> emergency_duration row = p_duration (payload m))
      \<and> currentNegotiations st0 = currentNegotiations st
      \<and> fairnessTracker st0 = fairnessTracker st
      \<and> \<not> shouldNegotiate st0
      \<and> (currentNegotiations st = []
           \<and> p_direction (payload m1) \<in> fst ` set (queuesByDirection st)
           \<and> p_direction (payload m2) \<in> fst ` set (queuesByDirection st)
           \<and> p_direction (payload m1) \<noteq> p_direction (payload m2) \<longrightarrow>
          (\<exists>st1. handleCrossingRequest reply1 t1 m1 st0 = Completed st1
             \<and> shouldNegotiate (push (newRequest t2 (fairnessTracker st1) (payload m2)) [] st1)
             \<and> handleCrossingRequest reply2 t2 m2 st1 =
                 (case runAuctionNegotiation reply2 t2
                         (push (newRequest t2 (fairnessTracker st1) (payload m2)) [] st1) of
                    Raised e st2 \<Rightarrow> Raised e st2
                  | Completed st2 \<Rightarrow> Completed (acknowledge m2 (p_direction (payload m2)) st2))))"
proof -
  define row where "row =
     \<lparr>queue_lengths = map (\<lambda>(dir, queue). (dir, 0::nat)) (queuesByDirection st),
      state_average_wait_time = 0, active_negotiations = currentNegotiations st,
      emergency_active = Some True, emergency_duration = p_duration (payload m)\<rparr>"
  define st0 where "st0 =
     st\<lparr>effects := effects st @ map yieldInstruction (allRequests st) @ [UpsertState row],
        queuesByDirection := map (\<lambda>(dir, queue). (dir, [])) (queuesByDirection st)\<rparr>"
  have run: "handleEmergencyPreemption now m st = Completed st0"
    by (simp add: emergency_result st0_def row_def)
  have queues: "queuesByDirection st0 = map (\<lambda>(dir, queue). (dir, [])) (queuesByDirection st)"
    and eff: "effects st0 = effects st @ map yieldInstruction (allRequests st) @ [UpsertState row]"
    and same: "currentNegotiations st0 = currentNegotiations st" "fairnessTracker st0 = fairnessTracker st"
    by (simp_all add: st0_def)
  have row: "emergency_active row = Some True" "emergency_duration row = p_duration (payload m)"
    by (simp_all add: row_def)
  have "length (filter (\<lambda>(dir, queue). length queue > 0) (queuesByDirection st0)) = 0"
    unfolding queues by (rule emptied_count)
  then have calm: "\<not> shouldNegotiate st0"
    unfolding shouldNegotiate_def Let_def by linarith
  have later: "\<exists>st1. handleCrossingRequest reply1 t1 m1 st0 = Completed st1
             \<and> shouldNegotiate (push (newRequest t2 (fairnessTracker st1) (payload m2)) [] st1)
             \<and> handleCrossingRequest reply2 t2 m2 st1 =
                 (case runAuctionNegotiation reply2 t2
                         (push (newRequest t2 (fairnessTracker st1) (payload m2)) [] st1) of
                    Raised e st2 \<Rightarrow> Raised e st2
                  | Completed st2 \<Rightarrow> Completed (acknowledge m2 (p_direction (payload m2)) st2))"
    if "currentNegotiations st = []"
      and "p_direction (payload m1) \<in> fst ` set (queuesByDirection st)"
      and "p_direction (payload m2) \<in> fst ` set (queuesByDirection st)"
      and "p_direction (payload m1) \<noteq> p_direction (payload m2)"
    using after_emergency_requests [OF that(2) that(3) that(4) _ queues] that(1) same(1)
    by simp
  from run queues eff row same calm later show ?thesis
    by blast
qed

lemma afterEmergency_run:
  "handleEmergencyPreemption 4000 (emergencyPreemption ''m3'') northQueued = Completed afterEmergency"
  by (simp add: afterEmergency_def processMessage_def emergencyPreemption_def
      handleEmergencyPreemption_def stateOf_def Let_def)

lemma afterEmergency_eq:
  "afterEmergency =
     \<lparr>intersectionId = ''vanness-market'',
      queuesByDirection =
        [(''north'', []), (''south'', []), (''east'', []), (''west'', []), (''northeast'', []),
         (''northwest'', []), (''southeast'', []), (''southwest'', [])],
      currentNegotiations = [], fairnessTracker = [],
      effects =
        [InsertMessage \<lparr>to = ''vehicle-w-17'', kind = Info, body = CrossingRequestAck 1 15,
                         sent_priority = 5, sent_ttl = 60\<rparr>,
         InsertMessage \<lparr>to = ''vehicle-w-17'', kind = Emergency,
                         body = EmergencyYield ''emergency_vehicle'' True,
                         sent_priority = 1000, sent_ttl = 60\<rparr>,
         UpsertState \<lparr>queue_lengths =
                        [(''north'', 0), (''south'', 0), (''east'', 0), (''west'', 0),
                         (''northeast'', 0), (''northwest'', 0), (''southeast'', 0),
                         (''southwest'', 0)],
                      state_average_wait_time = 0, active_negotiations = [],
                      emergency_active = Some True, emergency_duration = Some 300\<rparr>]\<rparr>"
  by (simp add: afterEmergency_def northQueued_eq agent_eval)

lemma eastQueued_eq:
  "eastQueued =
     afterEmergency
       \<lparr>queuesByDirection :=
          [(''north'', []), (''south'', []),
           (''east'', [\<lparr>vehicleId = ''c-9'', company = ''cruise'', arrivalTime = 5000,
                         waitTime = 0, priority = 10, passengers = 2, batteryLevel = 80,
                         direction = ''east''\<rparr>]),
           (''west'', []), (''northeast'', []), (''northwest'', []), (''southeast'', []),
           (''southwest'', [])],
        effects := effects afterEmergency @
          [InsertMessage \<lparr>to = ''vehicle-c-9'', kind = Info, body = CrossingRequestAck 1 15,
                           sent_priority = 5, sent_ttl = 60\<rparr>]\<rparr>"
  by (simp add: eastQueued_def afterEmergency_eq agent_eval)

lemma eastQueued_run:
  "handleCrossingRequest KeyMissing 5000 (crossingRequest ''m4'' ''c-9'' ''cruise'' ''east'')
     afterEmergency = Completed eastQueued"
  by (simp add: eastQueued_eq afterEmergency_eq agent_eval)

theorem emergency_preemption_clears_queues_witness:
  "handleEmergencyPreemption 4000 (emergencyPreemption ''m3'') northQueued = Completed afterEmergency
   \<and> handleCrossingRequest KeyMissing 5000 (crossingRequest ''m4'' ''c-9'' ''cruise'' ''east'')
        afterEmergency = Completed eastQueued
   \<and> shouldNegotiate
        (push (newRequest 6000 (fairnessTracker eastQueued)
                 (payload (crossingRequest ''m5'' ''z-4'' ''zoox'' ''south''))) [] eastQueued)"
proof -
  have hyp: "currentNegotiations northQueued = []
      \<and> p_direction (payload (crossingRequest ''m4'' ''c-9'' ''cruise'' ''east''))
            \<in> fst ` set (queuesByDirection northQueued)
      \<and> p_direction (payload (crossingRequest ''m5'' ''z-4'' ''zoox'' ''south''))
            \<in> fst ` set (queuesByDirection northQueued)
      \<and> p_direction (payload (crossingRequest ''m4'' ''c-9'' ''cruise'' ''east''))
            \<noteq> p_direction (payload (crossingRequest ''m5'' ''z-4'' ''zoox'' ''south''))"
    by (simp add: northQueued_eq crossingRequest_def)
  from emergency_preemption_clears_queues [of 4000 "emergencyPreemption ''m3''" northQueued
      "crossingRequest ''m4'' ''c-9'' ''cruise'' ''east''"
      "crossingRequest ''m5'' ''z-4'' ''zoox'' ''south''" KeyMissing 5000 6000 KeyMissing]
  obtain st0 st1 where
    "handleEmergencyPreemption 4000 (emergencyPreemption ''m3'') northQueued = Completed st0"
    "handleCrossingRequest KeyMissing 5000 (crossingRequest ''m4'' ''c-9'' ''cruise'' ''east'') st0
       = Completed st1"
    "shouldNegotiate
        (push (newRequest 6000 (fairnessTracker st1)
                 (payload (crossingRequest ''m5'' ''z-4'' ''zoox'' ''south''))) [] st1)"
    using hyp by blast
  then show ?thesis
    by (simp add: afterEmergency_run eastQueued_run)
qed

text \<open>
  Claim C4 as stated fails: one second after a preemption with a duration of 300
  seconds a vehicle queues from the east, one second later a vehicle queues from the
  south, and the second request calls the adapter with both vehicles and sends a
  crossing permission.
\<close>

theorem emergency_preemption_clears_queues_counterexample:
  "(case processMessage (Reply (Parsed (slots [''z-4'', ''c-9''] [(''c-9'', 15)]))) 6000
          (crossingRequest ''m5'' ''z-4'' ''zoox'' ''south'') eastQueued of
      Completed st \<Rightarrow>
        AdapterCall
          [\<lparr>vehicleId = ''z-4'', company = ''zoox'', arrivalTime = 6000, waitTime = 0,
            priority = 10, passengers = 2, batteryLevel = 80, direction = ''south''\<rparr>,
           \<lparr>vehicleId = ''c-9'', company = ''cruise'', arrivalTime = 5000, waitTime = 1,
            priority = 61 / 6, passengers = 2, batteryLevel = 80, direction = ''east''\<rparr>]
          \<in> set (effects st)
        \<and> InsertMessage \<lparr>to = ''vehicle-z-4'', kind = Info,
              body = CrossingPermission ''vanness-market'' 0 True,
              sent_priority = 10, sent_ttl = 60\<rparr> \<in> set (effects st)
    | Raised e st \<Rightarrow> False)"
  by (simp add: eastQueued_eq afterEmergency_eq slots_def agent_eval)

section \<open>The auction when the adapter fails\<close>

lemma refreshed_vehicles:
  "map vehicleId (concat (map snd (map (\<lambda>(dir, queue). (dir, map (refresh now tracker) queue)) qs)))
     = map vehicleId (concat (map snd qs))"
  by (induction qs) (simp_all add: case_prod_beta refresh_def Let_def comp_def)

text \<open>
  When the adapter fails, \<open>runAuctionNegotiation\<close> throws, in every state: a
  \<open>TypeError\<close> when \<open>reason\<close> returns its error object, since the object has no
  \<open>crossingOrder\<close> to iterate over, and the configuration error when the API key is
  missing. The adapter was called, no vehicle was granted or removed, the tracker is
  unchanged, and the negotiation id is released by \<open>finally\<close>.
\<close>

lemma failed_adapter_raises:
  "(\<exists>st'. runAuctionNegotiation (Reply RequestFailed) now st = Raised TypeError st'
       \<and> map vehicleId (allRequests st') = map vehicleId (allRequests st)
       \<and> effects st' = effects st @ [AdapterCall (allRequests st')]
       \<and> fairnessTracker st' = fairnessTracker st
       \<and> currentNegotiations st' = removeAll now (currentNegotiations st))
   \<and> (\<exists>st'. runAuctionNegotiation (Reply Unparsable) now st = Raised TypeError st'
       \<and> map vehicleId (allRequests st') = map vehicleId (allRequests st)
       \<and> effects st' = effects st @ [AdapterCall (allRequests st')]
       \<and> fairnessTracker st' = fairnessTracker st
       \<and> currentNegotiations st' = removeAll now (currentNegotiations st))
   \<and> (\<exists>st'. runAuctionNegotiation KeyMissing now st = Raised ConfigError st'
       \<and> map vehicleId (allRequests st') = map vehicleId (allRequests st)
       \<and> effects st' = effects st @ [AdapterCall (allRequests st')]
       \<and> fairnessTracker st' = fairnessTracker st
       \<and> currentNegotiations st' = removeAll now (currentNegotiations st))"
proof -
  have ids: "removeAll now (List.insert now ns) = removeAll now ns" for ns :: "int list"
    by (simp add: List.insert_def)
  show ?thesis
    by (simp add: runAuctionNegotiation_def auctionBody_def executeCrossingOrder_def
        errorObject_def allRequests_def Let_def ids refreshed_vehicles del: map_map)
qed

text \<open>
  Claim C1 at a concrete input. A vehicle waits from the north; a request from the
  south starts an auction and the request to the reasoning service fails. The handler
  throws a \<open>TypeError\<close>: no crossing order is produced by any fallback, both
  vehicles stay queued, no permission and no acknowledgment is sent.
\<close>

theorem adapter_failure_raises:
  "handleCrossingRequest (Reply RequestFailed) 3000
      (crossingRequest ''m2'' ''z-4'' ''zoox'' ''south'') northQueued
   = Raised TypeError
       \<lparr>intersectionId = ''vanness-market'',
        queuesByDirection =
          [(''north'', [\<lparr>vehicleId = ''w-17'', company = ''waymo'', arrivalTime = 2000,
                          waitTime = 1, priority = 61 / 6, passengers = 2, batteryLevel = 80,
                          direction = ''north''\<rparr>]),
           (''south'', [\<lparr>vehicleId = ''z-4'', company = ''zoox'', arrivalTime = 3000,
                          waitTime = 0, priority = 10, passengers = 2, batteryLevel = 80,
                          direction = ''south''\<rparr>]),
           (''east'', []), (''west'', []), (''northeast'', []), (''northwest'', []),
           (''southeast'', []), (''southwest'', [])],
        currentNegotiations = [], fairnessTracker = [],
        effects =
          [InsertMessage \<lparr>to = ''vehicle-w-17'', kind = Info, body = CrossingRequestAck 1 15,
                           sent_priority = 5, sent_ttl = 60\<rparr>,
           AdapterCall
             [\<lparr>vehicleId = ''w-17'', company = ''waymo'', arrivalTime = 2000, waitTime = 1,
               priority = 61 / 6, passengers = 2, batteryLevel = 80, direction = ''north''\<rparr>,
              \<lparr>vehicleId = ''z-4'', company = ''zoox'', arrivalTime = 3000, waitTime = 0,
               priority = 10, passengers = 2, batteryLevel = 80, direction = ''south''\<rparr>]]\<rparr>"
  by (simp add: northQueued_eq agent_eval)

section \<open>The directions of the queues never change\<close>

lemma keys_map_values: "map fst (map (\<lambda>(dir, queue). (dir, f queue)) qs) = map fst qs"
  by (induction qs) (simp_all add: case_prod_beta)

lemma grantCrossing_keys:
  "map fst (queuesByDirection (stateOf (grantCrossing wts v st))) = map fst (queuesByDirection st)"
  by (simp add: grantCrossing_def stateOf_def sendMessage_def Let_def keys_map_values
      split: option.splits del: map_map)

lemma grantAll_keys:
  "map fst (queuesByDirection (stateOf (grantAll wts vs st))) = map fst (queuesByDirection st)"
proof (induction vs arbitrary: st)
  case Nil
  then show ?case by (simp add: stateOf_def)
next
  case (Cons v vs)
  show ?case
  proof (cases "grantCrossing wts v st")
    case (Completed st1)
    with grantCrossing_keys [of wts v st] have "map fst (queuesByDirection st1) = map fst (queuesByDirection st)"
      by (simp add: stateOf_def)
    with Cons.IH [of st1] Completed show ?thesis by simp
  next
    case (Raised e st1)
    with grantCrossing_keys [of wts v st] show ?thesis
      by (simp add: stateOf_def)
  qed
qed

lemma executeCrossingOrder_keys:
  "map fst (queuesByDirection (stateOf (executeCrossingOrder result st)))
     = map fst (queuesByDirection st)"
  using grantAll_keys [of "waitTimes result" _ st]
  by (simp add: executeCrossingOrder_def split: option.splits) (simp add: stateOf_def)

lemma executeCrossingOrder_keys_Completed:
  "executeCrossingOrder result st = Completed st' \<Longrightarrow>
     map fst (queuesByDirection st') = map fst (queuesByDirection st)"
  using executeCrossingOrder_keys [of result st] by (simp add: stateOf_def)

lemma executeCrossingOrder_keys_Raised:
  "executeCrossingOrder result st = Raised e st' \<Longrightarrow>
     map fst (queuesByDirection st') = map fst (queuesByDirection st)"
  using executeCrossingOrder_keys [of result st] by (simp add: stateOf_def)

lemma auctionBody_keys:
  "map fst (queuesByDirection (stateOf (auctionBody reply now st))) = map fst (queuesByDirection st)"
  by (auto simp: auctionBody_def Let_def stateOf_def updateFairnessScores_def keys_map_values
      simp del: map_map
      split: sum.splits outcome.splits option.splits
      dest!: executeCrossingOrder_keys_Completed executeCrossingOrder_keys_Raised)

lemma runAuctionNegotiation_keys:
  "map fst (queuesByDirection (stateOf (runAuctionNegotiation reply now st)))
     = map fst (queuesByDirection st)"
  using auctionBody_keys [of reply now "st\<lparr>currentNegotiations := List.insert now (currentNegotiations st)\<rparr>"]
  by (simp add: runAuctionNegotiation_def Let_def stateOf_def split: outcome.splits)

lemma push_keys:
  "map_of (queuesByDirection st) (direction request) = Some queue \<Longrightarrow>
     map fst (queuesByDirection (push request queue st)) = map fst (queuesByDirection st)"
  by (auto simp: push_def AList.update_keys dest: map_of_SomeD intro: rev_image_eqI)

lemma handleCrossingRequest_keys:
  "map fst (queuesByDirection (stateOf (handleCrossingRequest reply now m st)))
     = map fst (queuesByDirection st)"
proof (cases "map_of (queuesByDirection st) (p_direction (payload m))")
  case None
  then show ?thesis
    by (simp add: handleCrossingRequest_def newRequest_def Let_def acknowledge_def
        sendMessage_def stateOf_def)
next
  case (Some queue)
  define request where "request = newRequest now (fairnessTracker st) (payload m)"
  have dir: "direction request = p_direction (payload m)"
    by (simp add: request_def newRequest_def)
  have kp: "map fst (queuesByDirection (push request queue st)) = map fst (queuesByDirection st)"
    using push_keys [of st request queue] Some by (simp add: dir)
  have ka: "map fst (queuesByDirection (stateOf (runAuctionNegotiation reply now (push request queue st))))
              = map fst (queuesByDirection st)"
    using runAuctionNegotiation_keys [of reply now "push request queue st"] kp by simp
  from Some kp ka show ?thesis
    by (simp add: handleCrossingRequest_def Let_def request_def [symmetric] dir
        acknowledge_def sendMessage_def stateOf_def split: outcome.splits)
qed

text \<open>
  Whatever message the agent processes, and whether the handler returns or throws,
  the agent has the same queues for the same directions afterwards. With the
  constructor's eight directions this holds at every moment of the agent's life, which
  is the assumption under which the unknown-direction property is stated.
\<close>

lemma processMessage_keys:
  "map fst (queuesByDirection (stateOf (processMessage reply now m st)))
     = map fst (queuesByDirection st)"
proof -
  have "map fst (queuesByDirection (stateOf (handleEmergencyPreemption now m st)))
          = map fst (queuesByDirection st)"
    by (simp add: emergency_result stateOf_def keys_map_values del: map_map)
  moreover have "map fst (queuesByDirection (stateOf (handleStatusQuery now m st)))
          = map fst (queuesByDirection st)"
    by (simp add: handleStatusQuery_def sendMessage_def stateOf_def)
  ultimately show ?thesis
    using handleCrossingRequest_keys [of reply now m st]
    by (simp add: processMessage_def) (simp add: stateOf_def)
qed

section \<open>What a consensus round returns, from the responses it was shown\<close>

lemma rowsSeen_append: "rowsSeen (xs @ ys) = rowsSeen xs @ rowsSeen ys"
  by (simp add: rowsSeen_def)

lemma rowsSeen_Cons: "rowsSeen (obs # xs) = (case snd obs of None \<Rightarrow> [] | Some rows \<Rightarrow> rows) @ rowsSeen xs"
  by (simp add: rowsSeen_def)

lemma lastVote_append:
  "lastVote pid (xs @ ys) s = (case lastVote pid ys s of Some v \<Rightarrow> Some v | None \<Rightarrow> lastVote pid xs s)"
  by (induction xs) (auto split: option.splits)

lemma recordResponses_vote:
  "map_of (recordResponses (selectResponses pid rows) rs) s
     = (case lastVote pid rows s of Some v \<Rightarrow> Some v | None \<Rightarrow> map_of rs s)"
proof (induction rows arbitrary: rs)
  case Nil
  then show ?case by (simp add: recordResponses_def selectResponses_def)
next
  case (Cons msg rows)
  show ?case
  proof (cases "isResponseTo pid msg")
    case False
    then have "selectResponses pid (msg # rows) = selectResponses pid rows"
      by (simp add: selectResponses_def isResponseTo_def)
    with Cons.IH [of rs] False show ?thesis
      by (simp split: option.splits)
  next
    case True
    then have sel: "selectResponses pid (msg # rows) = msg # selectResponses pid rows"
      by (simp add: selectResponses_def isResponseTo_def)
    have step: "recordResponses (msg # selectResponses pid rows) rs
                  = recordResponses (selectResponses pid rows)
                      (AList.update (sender msg) (message_type msg = Acceptance) rs)"
      by (simp add: recordResponses_def)
    show ?thesis
      using Cons.IH [of "AList.update (sender msg) (message_type msg = Acceptance) rs"] True
      by (auto simp: sel step AList.update_conv' split: option.splits)
  qed
qed

lemma lastVote_dom:
  "lastVote pid rows s \<noteq> None \<longleftrightarrow> s \<in> set (voters pid rows)"
  by (induction rows) (auto simp: voters_def split: option.splits)

lemma voters_mono: "length (voters pid xs) \<le> length (voters pid (xs @ ys))"
proof -
  have "set (voters pid xs) \<subseteq> set (voters pid (xs @ ys))"
    by (auto simp: voters_def)
  then have "card (set (voters pid xs)) \<le> card (set (voters pid (xs @ ys)))"
    by (intro card_mono) simp_all
  then show ?thesis
    by (simp add: voters_def length_remdups_card_conv)
qed

lemma tallies_length:
  assumes "tallies pid rs seen"
  shows "length rs = length (voters pid seen)"
proof -
  from assms have d: "distinct (map fst rs)" and m: "\<And>s. map_of rs s = lastVote pid seen s"
    by (simp_all add: tallies_def)
  have "fst ` set rs = set (voters pid seen)"
  proof -
    have "fst ` set rs = dom (map_of rs)" by (simp add: dom_map_of_conv_image_fst)
    also have "\<dots> = {s. lastVote pid seen s \<noteq> None}" by (auto simp: m dom_def)
    also have "\<dots> = set (voters pid seen)"
      using lastVote_dom [of pid seen] by blast
    finally show ?thesis .
  qed
  then have "card (set (map fst rs)) = card (set (voters pid seen))" by simp
  moreover have "card (set (map fst rs)) = length rs"
    using distinct_card [OF d] by simp
  moreover have "card (set (voters pid seen)) = length (voters pid seen)"
    by (rule distinct_card) (simp add: voters_def)
  ultimately show ?thesis by simp
qed

lemma approvals_card:
  "distinct (map fst rs) \<Longrightarrow> countApprovals rs = card {s. map_of rs s = Some True}"
proof (induction rs)
  case Nil
  then show ?case by (simp add: countApprovals_def)
next
  case (Cons a rs)
  obtain k v where a: "a = (k, v)" by (cases a)
  from Cons.prems have k: "k \<notin> fst ` set rs" and d: "distinct (map fst rs)"
    by (simp_all add: a)
  from k have none: "map_of rs k = None" by (simp add: map_of_eq_None_iff)
  have fin: "finite {s. map_of rs s = Some True}"
    by (rule finite_subset [of _ "dom (map_of rs)"]) (auto simp: finite_dom_map_of)
  have split: "{s. map_of ((k, v) # rs) s = Some True}
                 = (if v then insert k {s. map_of rs s = Some True} else {s. map_of rs s = Some True})"
    using none by auto
  have notin: "k \<notin> {s. map_of rs s = Some True}" using none by simp
  have lhs: "countApprovals (a # rs) = (if v then Suc (countApprovals rs) else countApprovals rs)"
    by (simp add: a countApprovals_def)
  have rhs: "card {s. map_of (a # rs) s = Some True}
               = (if v then Suc (card {s. map_of rs s = Some True})
                  else card {s. map_of rs s = Some True})"
    unfolding a split using fin notin by simp
  show ?case
    unfolding lhs rhs using Cons.IH [OF d] by simp
qed

lemma tallies_approvals:
  assumes "tallies pid rs seen"
  shows "countApprovals rs = accepting pid seen"
proof -
  from assms have d: "distinct (map fst rs)" and m: "\<And>s. map_of rs s = lastVote pid seen s"
    by (simp_all add: tallies_def)
  have "{s. lastVote pid seen s = Some True} \<inter> set (voters pid seen) = {s. lastVote pid seen s = Some True}"
    using lastVote_dom [of pid seen] by auto
  then have "accepting pid seen = card {s. lastVote pid seen s = Some True}"
    by (simp add: accepting_def voters_def distinct_length_filter)
  with approvals_card [OF d] show ?thesis
    by (simp add: m)
qed

lemma tallies_start: "tallies pid [] []"
  by (simp add: tallies_def)

lemma tallies_step:
  assumes "tallies pid rs seen"
  shows "tallies pid (case tb of None \<Rightarrow> rs
                       | Some rows \<Rightarrow> recordResponses (selectResponses pid rows) rs)
           (seen @ rowsSeen [(t, tb)])"
proof (cases tb)
  case None
  with assms show ?thesis by (simp add: rowsSeen_def)
next
  case (Some rows)
  from assms have d: "distinct (map fst rs)" and m: "\<And>s. map_of rs s = lastVote pid seen s"
    by (simp_all add: tallies_def)
  have "map_of (recordResponses (selectResponses pid rows) rs) s = lastVote pid (seen @ rows) s" for s
    by (simp add: recordResponses_vote lastVote_append m split: option.splits)
  with recordResponses_distinct [OF d] Some show ?thesis
    by (simp add: tallies_def rowsSeen_def)
qed

lemma poll_until_timeout:
  assumes "tallies pid rs seen"
    and "\<forall>obs \<in> set pre. fst obs - startTime < timeoutMs"
    and "pre \<noteq> [] \<longrightarrow> int (length (voters pid (seen @ rowsSeen pre))) < quorumCount n"
    and "\<not> t - startTime < timeoutMs"
  shows "\<exists>rs'. pollResponses pid n timeoutMs startTime (pre @ (t, tb) # rest) rs = Some rs'
            \<and> tallies pid rs' (seen @ rowsSeen pre)"
  using assms(1-3)
proof (induction pre arbitrary: rs seen)
  case Nil
  with assms(4) show ?case by (simp add: rowsSeen_def)
next
  case (Cons obs pre)
  obtain a tb0 where obs: "obs = (a, tb0)" by (cases obs)
  define rs1 where "rs1 = (case tb0 of None \<Rightarrow> rs
                           | Some rows \<Rightarrow> recordResponses (selectResponses pid rows) rs)"
  define seen1 where "seen1 = seen @ rowsSeen [(a, tb0)]"
  have t1: "tallies pid rs1 seen1"
    unfolding rs1_def seen1_def by (rule tallies_step [OF Cons.prems(1)])
  have whole: "seen @ rowsSeen ((a, tb0) # pre) = seen1 @ rowsSeen pre"
    by (simp add: seen1_def rowsSeen_def)
  have "length rs1 = length (voters pid seen1)"
    by (rule tallies_length [OF t1])
  also have "\<dots> \<le> length (voters pid (seen1 @ rowsSeen pre))"
    by (rule voters_mono)
  finally have "int (length rs1) < quorumCount n"
    using Cons.prems(3) by (simp add: obs whole)
  moreover have "a - startTime < timeoutMs"
    using Cons.prems(2) by (simp add: obs)
  moreover have "\<exists>rs'. pollResponses pid n timeoutMs startTime (pre @ (t, tb) # rest) rs1 = Some rs'
            \<and> tallies pid rs' (seen1 @ rowsSeen pre)"
  proof (rule Cons.IH [OF t1])
    show "\<forall>obs \<in> set pre. fst obs - startTime < timeoutMs"
      using Cons.prems(2) by simp
    show "pre \<noteq> [] \<longrightarrow> int (length (voters pid (seen1 @ rowsSeen pre))) < quorumCount n"
      using Cons.prems(3) by (simp add: obs whole)
  qed
  ultimately show ?case
    by (simp add: obs whole rs1_def [symmetric] Let_def del: rowsSeen_Cons)
qed

lemma poll_until_quorum:
  assumes "tallies pid rs seen"
    and "\<forall>obs \<in> set pre. fst obs - startTime < timeoutMs"
    and "pre \<noteq> [] \<longrightarrow> int (length (voters pid (seen @ rowsSeen pre))) < quorumCount n"
    and "t - startTime < timeoutMs"
    and "quorumCount n \<le> int (length (voters pid (seen @ rowsSeen (pre @ [(t, tb)]))))"
  shows "\<exists>rs'. pollResponses pid n timeoutMs startTime (pre @ (t, tb) # rest) rs = Some rs'
            \<and> tallies pid rs' (seen @ rowsSeen (pre @ [(t, tb)]))"
  using assms(1-3,5)
proof (induction pre arbitrary: rs seen)
  case Nil
  define rs1 where "rs1 = (case tb of None \<Rightarrow> rs
                           | Some rows \<Rightarrow> recordResponses (selectResponses pid rows) rs)"
  have t1: "tallies pid rs1 (seen @ rowsSeen [(t, tb)])"
    unfolding rs1_def by (rule tallies_step [OF Nil.prems(1)])
  from tallies_length [OF t1] Nil.prems(4) have "quorumCount n \<le> int (length rs1)"
    by simp
  with t1 assms(4) show ?case
    by (simp add: rs1_def [symmetric] Let_def)
next
  case (Cons obs pre)
  obtain a tb0 where obs: "obs = (a, tb0)" by (cases obs)
  define rs1 where "rs1 = (case tb0 of None \<Rightarrow> rs
                           | Some rows \<Rightarrow> recordResponses (selectResponses pid rows) rs)"
  define seen1 where "seen1 = seen @ rowsSeen [(a, tb0)]"
  have t1: "tallies pid rs1 seen1"
    unfolding rs1_def seen1_def by (rule tallies_step [OF Cons.prems(1)])
  have whole: "seen @ rowsSeen ((a, tb0) # xs) = seen1 @ rowsSeen xs" for xs
    by (simp add: seen1_def rowsSeen_def)
  have "length rs1 = length (voters pid seen1)"
    by (rule tallies_length [OF t1])
  also have "\<dots> \<le> length (voters pid (seen1 @ rowsSeen pre))"
    by (rule voters_mono)
  finally have "int (length rs1) < quorumCount n"
    using Cons.prems(3) by (simp add: obs whole)
  moreover have "a - startTime < timeoutMs"
    using Cons.prems(2) by (simp add: obs)
  moreover have "\<exists>rs'. pollResponses pid n timeoutMs startTime (pre @ (t, tb) # rest) rs1 = Some rs'
            \<and> tallies pid rs' (seen1 @ rowsSeen (pre @ [(t, tb)]))"
  proof (rule Cons.IH [OF t1])
    show "\<forall>obs \<in> set pre. fst obs - startTime < timeoutMs"
      using Cons.prems(2) by simp
    show "pre \<noteq> [] \<longrightarrow> int (length (voters pid (seen1 @ rowsSeen pre))) < quorumCount n"
      using Cons.prems(3) by (simp add: obs whole)
    show "quorumCount n \<le> int (length (voters pid (seen1 @ rowsSeen (pre @ [(t, tb)]))))"
      using Cons.prems(4) whole [of "pre @ [(t, tb)]"] by (simp add: obs)
  qed
  ultimately show ?case
    using whole [of "pre @ [(t, tb)]"] by (simp add: obs rs1_def [symmetric] Let_def)
qed

lemma decide_tallies:
  assumes "tallies pid rs seen"
  shows "responses (decide rs) = rs"
    and "approved (decide rs) \<longleftrightarrow> 51 * length (voters pid seen) \<le> 100 * accepting pid seen"
  using tallies_length [OF assms] tallies_approvals [OF assms]
  by (simp_all add: decide_def majorityCount_le)

lemma below_quorum: "int k < quorumCount n \<longleftrightarrow> 10 * k < 7 * n"
  using quorumCount_le [of n k] by linarith

lemma round_by_timeout:
  assumes "\<forall>obs \<in> set pre. fst obs - startTime < timeoutMs"
    and "pre \<noteq> [] \<longrightarrow> 10 * length (voters pid (rowsSeen pre)) < 7 * length parts"
    and "\<not> t - startTime < timeoutMs"
  shows "\<exists>rs. gatherConsensus pid parts timeoutMs startTime (pre @ (t, tb) # rest) = Some (decide rs)
            \<and> tallies pid rs (rowsSeen pre)"
  using poll_until_timeout [OF tallies_start assms(1) _ assms(3), of pid "length parts" tb rest] assms(2)
  by (auto simp: gatherConsensus_def below_quorum)

lemma round_by_quorum:
  assumes "\<forall>obs \<in> set pre. fst obs - startTime < timeoutMs"
    and "pre \<noteq> [] \<longrightarrow> 10 * length (voters pid (rowsSeen pre)) < 7 * length parts"
    and "t - startTime < timeoutMs"
    and "7 * length parts \<le> 10 * length (voters pid (rowsSeen (pre @ [(t, tb)])))"
  shows "\<exists>rs. gatherConsensus pid parts timeoutMs startTime (pre @ (t, tb) # rest) = Some (decide rs)
            \<and> tallies pid rs (rowsSeen (pre @ [(t, tb)]))"
  using poll_until_quorum [OF tallies_start assms(1) _ assms(3), of pid "length parts" tb rest]
    assms(2,4)
  by (auto simp: gatherConsensus_def below_quorum quorumCount_le)

lemma round_cases:
  assumes "pollResponses pid n timeoutMs startTime trace rs = Some rs'"
    and "tallies pid rs seen"
  shows "\<exists>pre t tb rest. trace = pre @ (t, tb) # rest
           \<and> (\<forall>obs \<in> set pre. fst obs - startTime < timeoutMs)
           \<and> (pre \<noteq> [] \<longrightarrow> int (length (voters pid (seen @ rowsSeen pre))) < quorumCount n)
           \<and> (\<not> t - startTime < timeoutMs
                \<or> t - startTime < timeoutMs
                  \<and> quorumCount n \<le> int (length (voters pid (seen @ rowsSeen (pre @ [(t, tb)])))))"
  using assms
proof (induction trace arbitrary: rs seen)
  case Nil
  then show ?case by simp
next
  case (Cons obs trace)
  obtain a tb0 where obs: "obs = (a, tb0)" by (cases obs)
  define rs1 where "rs1 = (case tb0 of None \<Rightarrow> rs
                           | Some rows \<Rightarrow> recordResponses (selectResponses pid rows) rs)"
  define seen1 where "seen1 = seen @ rowsSeen [(a, tb0)]"
  have t1: "tallies pid rs1 seen1"
    unfolding rs1_def seen1_def by (rule tallies_step [OF Cons.prems(2)])
  have len1: "length rs1 = length (voters pid seen1)"
    by (rule tallies_length [OF t1])
  have whole: "seen @ rowsSeen ((a, tb0) # xs) = seen1 @ rowsSeen xs" for xs
    by (simp add: seen1_def rowsSeen_def)
  show ?case
  proof (cases "a - startTime < timeoutMs")
    case False
    then have "obs # trace = [] @ (a, tb0) # trace \<and> \<not> a - startTime < timeoutMs"
      by (simp add: obs)
    then show ?thesis by fastforce
  next
    case True
    show ?thesis
    proof (cases "quorumCount n \<le> int (length rs1)")
      case True
      with \<open>a - startTime < timeoutMs\<close> len1
      have "obs # trace = [] @ (a, tb0) # trace \<and> a - startTime < timeoutMs
              \<and> quorumCount n \<le> int (length (voters pid (seen @ rowsSeen ([] @ [(a, tb0)]))))"
        by (simp add: obs seen1_def)
      then show ?thesis by fastforce
    next
      case False
      with Cons.prems(1) \<open>a - startTime < timeoutMs\<close>
      have "pollResponses pid n timeoutMs startTime trace rs1 = Some rs'"
        by (simp add: obs rs1_def [symmetric] Let_def)
      from Cons.IH [OF this t1] obtain pre t tb rest where
        tr: "trace = pre @ (t, tb) # rest"
        and it: "\<forall>obs \<in> set pre. fst obs - startTime < timeoutMs"
        and bq: "pre \<noteq> [] \<longrightarrow> int (length (voters pid (seen1 @ rowsSeen pre))) < quorumCount n"
        and en: "\<not> t - startTime < timeoutMs
                \<or> t - startTime < timeoutMs
                  \<and> quorumCount n \<le> int (length (voters pid (seen1 @ rowsSeen (pre @ [(t, tb)]))))"
        by blast
      have bq': "int (length (voters pid (seen @ rowsSeen ((a, tb0) # pre)))) < quorumCount n"
      proof (cases "pre = []")
        case True
        have "seen @ rowsSeen [(a, tb0)] = seen1" by (simp add: seen1_def)
        with True False len1 show ?thesis by simp
      next
        case False
        with bq show ?thesis by (simp add: whole)
      qed
      have "obs # trace = ((a, tb0) # pre) @ (t, tb) # rest"
        by (simp add: obs tr)
      moreover have "\<forall>obs \<in> set ((a, tb0) # pre). fst obs - startTime < timeoutMs"
        using it \<open>a - startTime < timeoutMs\<close> by simp
      moreover have "\<not> t - startTime < timeoutMs
                \<or> t - startTime < timeoutMs
                  \<and> quorumCount n \<le> int (length (voters pid (seen @ rowsSeen (((a, tb0) # pre) @ [(t, tb)]))))"
        using en whole [of "pre @ [(t, tb)]"] by simp
      ultimately show ?thesis
        using bq' by blast
    qed
  qed
qed

text \<open>
  Every round that returns ends in one of two ways: the clock reaches the timeout
  while fewer than 70 percent of the participants have voted, or a poll in time brings
  the voters to 70 percent. The next two theorems are stated for these two ways.
\<close>

lemma every_round_ends_by_timeout_or_quorum:
  assumes "gatherConsensus pid parts timeoutMs startTime trace = Some r"
  shows "\<exists>pre t tb rest. trace = pre @ (t, tb) # rest
           \<and> (\<forall>obs \<in> set pre. fst obs - startTime < timeoutMs)
           \<and> (pre \<noteq> [] \<longrightarrow> 10 * length (voters pid (rowsSeen pre)) < 7 * length parts)
           \<and> (\<not> t - startTime < timeoutMs
                \<or> t - startTime < timeoutMs
                  \<and> 7 * length parts \<le> 10 * length (voters pid (rowsSeen (pre @ [(t, tb)]))))"
proof -
  from assms obtain rs where "pollResponses pid (length parts) timeoutMs startTime trace [] = Some rs"
    by (auto simp: gatherConsensus_def)
  from round_cases [OF this tallies_start] show ?thesis
    by (simp add: below_quorum quorumCount_le)
qed

text \<open>
  Claim C6, as amended. Let \<open>seen\<close> be the rows of the polls that the round read:
  all polls before the timeout when the clock ends the round, or all polls up to the
  one that brought the voters to the quorum. The round returns, its map holds exactly
  the last vote of each sender of a response among those rows, and the proposal is
  approved if and only if the senders whose vote is an Acceptance number at least
  \<open>Math.ceil(0.51 * voters)\<close>; for 1 to 50 voters that is more than half of them. The
  participants enter only through the quorum: one that sends no response is counted in
  neither number.
\<close>

theorem approval_rule:
  assumes "\<forall>obs \<in> set pre. fst obs - startTime < timeoutMs"
    and "pre \<noteq> [] \<longrightarrow> 10 * length (voters pid (rowsSeen pre)) < 7 * length parts"
    and "\<not> t - startTime < timeoutMs \<and> seen = rowsSeen pre
         \<or> t - startTime < timeoutMs \<and> seen = rowsSeen (pre @ [(t, table)])
           \<and> 7 * length parts \<le> 10 * length (voters pid seen)"
  shows "\<exists>r. gatherConsensus pid parts timeoutMs startTime (pre @ (t, table) # rest) = Some r
           \<and> (\<forall>s. map_of (responses r) s = lastVote pid seen s)
           \<and> distinct (map fst (responses r))
           \<and> length (responses r) = length (voters pid seen)
           \<and> (approved r \<longleftrightarrow>
                \<lceil>real (length (voters pid seen)) * 0.51\<rceil> \<le> int (accepting pid seen))
           \<and> (1 \<le> length (voters pid seen) \<and> length (voters pid seen) \<le> 50 \<longrightarrow>
                (approved r \<longleftrightarrow> length (voters pid seen) < 2 * accepting pid seen))"
proof -
  have "\<exists>rs. gatherConsensus pid parts timeoutMs startTime (pre @ (t, table) # rest) = Some (decide rs)
            \<and> tallies pid rs seen"
    using assms(3) round_by_timeout [OF assms(1,2), of t table rest]
      round_by_quorum [OF assms(1,2), of t table rest]
    by auto
  then obtain rs where run: "gatherConsensus pid parts timeoutMs startTime (pre @ (t, table) # rest) = Some (decide rs)"
    and tl: "tallies pid rs seen"
    by blast
  have resp: "responses (decide rs) = rs"
    by (simp add: decide_def)
  have len: "length rs = length (voters pid seen)"
    by (rule tallies_length [OF tl])
  have appr: "approved (decide rs) \<longleftrightarrow> majorityCount (length (voters pid seen)) \<le> int (accepting pid seen)"
    using len tallies_approvals [OF tl] by (simp add: decide_def)
  have small: "1 \<le> length (voters pid seen) \<and> length (voters pid seen) \<le> 50 \<longrightarrow>
                (approved (decide rs) \<longleftrightarrow> length (voters pid seen) < 2 * accepting pid seen)"
    using majority_small [of "length (voters pid seen)" "accepting pid seen"] appr by simp
  from tl have "\<forall>s. map_of rs s = lastVote pid seen s" and "distinct (map fst rs)"
    by (simp_all add: tallies_def)
  with run len appr small show ?thesis
    by (simp add: resp majorityCount_def)
qed

text \<open>
  Claim C5, as amended. With 10 participants the quorum count is 7. When the clock
  reaches the timeout while fewer than 7 senders have responded, the round returns an
  ordinary result computed from the votes received, with no timeout status: with 6
  voters it is approved exactly when at least 4 of them accept. When a poll in time
  shows responses from 7 or more senders, the round returns at that poll, whatever
  later polls would show, and with 7 voters of whom 4 accept it is approved.
\<close>

theorem ten_participants_round:
  assumes "length parts = 10"
    and "\<forall>obs \<in> set pre. fst obs - startTime < timeoutMs"
    and "pre \<noteq> [] \<longrightarrow> length (voters pid (rowsSeen pre)) < 7"
  shows "quorumCount (length parts) = 7
       \<and> (\<not> t - startTime < timeoutMs \<longrightarrow>
            (\<exists>r. gatherConsensus pid parts timeoutMs startTime (pre @ (t, table) # rest) = Some r
               \<and> (\<forall>s. map_of (responses r) s = lastVote pid (rowsSeen pre) s)
               \<and> length (responses r) = length (voters pid (rowsSeen pre))
               \<and> (length (voters pid (rowsSeen pre)) = 6 \<longrightarrow>
                    (approved r \<longleftrightarrow> 4 \<le> accepting pid (rowsSeen pre)))))
       \<and> (t - startTime < timeoutMs
            \<and> 7 \<le> length (voters pid (rowsSeen (pre @ [(t, table)]))) \<longrightarrow>
            (\<exists>r. gatherConsensus pid parts timeoutMs startTime (pre @ (t, table) # rest) = Some r
               \<and> (\<forall>s. map_of (responses r) s = lastVote pid (rowsSeen (pre @ [(t, table)])) s)
               \<and> length (responses r) = length (voters pid (rowsSeen (pre @ [(t, table)])))
               \<and> (length (voters pid (rowsSeen (pre @ [(t, table)]))) = 7
                    \<and> accepting pid (rowsSeen (pre @ [(t, table)])) = 4 \<longrightarrow> approved r)))"
proof -
  have q: "quorumCount (length parts) = 7"
    by (simp add: assms(1) quorumCount_def)
  have below: "pre \<noteq> [] \<longrightarrow> 10 * length (voters pid (rowsSeen pre)) < 7 * length parts"
    using assms(1,3) by simp
  have timeout: "\<exists>r. gatherConsensus pid parts timeoutMs startTime (pre @ (t, table) # rest) = Some r
               \<and> (\<forall>s. map_of (responses r) s = lastVote pid (rowsSeen pre) s)
               \<and> length (responses r) = length (voters pid (rowsSeen pre))
               \<and> (length (voters pid (rowsSeen pre)) = 6 \<longrightarrow>
                    (approved r \<longleftrightarrow> 4 \<le> accepting pid (rowsSeen pre)))"
    if "\<not> t - startTime < timeoutMs"
  proof -
    from round_by_timeout [OF assms(2) below that, of table rest] obtain rs where
      run: "gatherConsensus pid parts timeoutMs startTime (pre @ (t, table) # rest) = Some (decide rs)"
      and tl: "tallies pid rs (rowsSeen pre)"
      by blast
    have "length (voters pid (rowsSeen pre)) = 6 \<longrightarrow>
            (approved (decide rs) \<longleftrightarrow> 4 \<le> accepting pid (rowsSeen pre))"
      using decide_tallies(2) [OF tl] by auto
    moreover from tl have "\<forall>s. map_of rs s = lastVote pid (rowsSeen pre) s"
      by (simp add: tallies_def)
    ultimately show ?thesis
      using run tallies_length [OF tl] decide_tallies(1) [OF tl] by auto
  qed
  have quorum: "\<exists>r. gatherConsensus pid parts timeoutMs startTime (pre @ (t, table) # rest) = Some r
               \<and> (\<forall>s. map_of (responses r) s = lastVote pid (rowsSeen (pre @ [(t, table)])) s)
               \<and> length (responses r) = length (voters pid (rowsSeen (pre @ [(t, table)])))
               \<and> (length (voters pid (rowsSeen (pre @ [(t, table)]))) = 7
                    \<and> accepting pid (rowsSeen (pre @ [(t, table)])) = 4 \<longrightarrow> approved r)"
    if "t - startTime < timeoutMs" and "7 \<le> length (voters pid (rowsSeen (pre @ [(t, table)])))"
  proof -
    have "7 * length parts \<le> 10 * length (voters pid (rowsSeen (pre @ [(t, table)])))"
      using that(2) assms(1) by simp
    from round_by_quorum [OF assms(2) below that(1) this, of rest] obtain rs where
      run: "gatherConsensus pid parts timeoutMs startTime (pre @ (t, table) # rest) = Some (decide rs)"
      and tl: "tallies pid rs (rowsSeen (pre @ [(t, table)]))"
      by blast
    have "length (voters pid (rowsSeen (pre @ [(t, table)]))) = 7
            \<and> accepting pid (rowsSeen (pre @ [(t, table)])) = 4 \<longrightarrow> approved (decide rs)"
      using decide_tallies(2) [OF tl] by auto
    moreover from tl have "\<forall>s. map_of rs s = lastVote pid (rowsSeen (pre @ [(t, table)])) s"
      by (simp add: tallies_def)
    ultimately show ?thesis
      using run tallies_length [OF tl] decide_tallies(1) [OF tl] by auto
  qed
  from q timeout quorum show ?thesis by blast
qed


lemmas tally_eval =
  rowsSeen_def voters_def accepting_def isResponseTo_def response_def

theorem approval_rule_witness:
  "(case gatherConsensus ''p-2'' [''district-1'', ''district-2''] 5000 0
          [(0, Some [response ''district-1'' Acceptance ''p-2'']),
           (100, Some [response ''district-1'' Acceptance ''p-2'',
                       response ''district-2'' Rejection ''p-2'']),
           (200, Some [response ''district-2'' Acceptance ''p-2''])] of
      Some r \<Rightarrow> \<not> approved r
                 \<and> map_of (responses r) ''district-1'' = Some True
                 \<and> map_of (responses r) ''district-2'' = Some False
                 \<and> length (responses r) = 2
    | None \<Rightarrow> False)"
proof -
  define pre where "pre = [(0::int, Some [response ''district-1'' Acceptance ''p-2''])]"
  define table where "table = Some [response ''district-1'' Acceptance ''p-2'',
                                    response ''district-2'' Rejection ''p-2'']"
  define seen where "seen = rowsSeen (pre @ [(100, table)])"
  have h1: "\<forall>obs \<in> set pre. fst obs - 0 < 5000"
    by (simp add: pre_def)
  have h2: "pre \<noteq> [] \<longrightarrow> 10 * length (voters ''p-2'' (rowsSeen pre))
                < 7 * length [''district-1'', ''district-2'']"
    by (simp add: pre_def tally_eval)
  have v: "length (voters ''p-2'' seen) = 2" and a: "accepting ''p-2'' seen = 1"
    and l1: "lastVote ''p-2'' seen ''district-1'' = Some True"
    and l2: "lastVote ''p-2'' seen ''district-2'' = Some False"
    by (simp_all add: seen_def pre_def table_def tally_eval)
  have h3: "\<not> (100::int) - 0 < 5000 \<and> seen = rowsSeen pre
         \<or> (100::int) - 0 < 5000 \<and> seen = rowsSeen (pre @ [(100, table)])
           \<and> 7 * length [''district-1'', ''district-2''] \<le> 10 * length (voters ''p-2'' seen)"
    by (simp add: v) (simp add: seen_def)
  from approval_rule [OF h1 h2 h3, where rest = "[(200, Some [response ''district-2'' Acceptance ''p-2''])]"]
  obtain r where
    "gatherConsensus ''p-2'' [''district-1'', ''district-2''] 5000 0
       (pre @ (100, table) # [(200, Some [response ''district-2'' Acceptance ''p-2''])]) = Some r"
    "\<forall>s. map_of (responses r) s = lastVote ''p-2'' seen s"
    "length (responses r) = length (voters ''p-2'' seen)"
    "approved r \<longleftrightarrow> \<lceil>real (length (voters ''p-2'' seen)) * 0.51\<rceil> \<le> int (accepting ''p-2'' seen)"
    by blast
  then show ?thesis
    by (simp add: v a l1 l2 pre_def table_def)
qed

theorem ten_participants_round_witness:
  "(case gatherConsensus ''p-5'' ten 5000 0
          [(0, Some []),
           (100, Some [response ''d1'' Acceptance ''p-5'', response ''d2'' Acceptance ''p-5'',
                       response ''d3'' Rejection ''p-5'']),
           (4900, Some [response ''d1'' Acceptance ''p-5'', response ''d2'' Rejection ''p-5'',
                        response ''d3'' Rejection ''p-5'', response ''d4'' Acceptance ''p-5'',
                        response ''d5'' Acceptance ''p-5'', response ''d6'' Rejection ''p-5'']),
           (5000, None)] of
      Some r \<Rightarrow> \<not> approved r \<and> length (responses r) = 6
    | None \<Rightarrow> False)
   \<and> (case gatherConsensus ''p-5'' ten 5000 0
          [(0, Some []),
           (100, Some [response ''d1'' Acceptance ''p-5'', response ''d2'' Acceptance ''p-5'',
                       response ''d3'' Rejection ''p-5'']),
           (200, Some [response ''d1'' Acceptance ''p-5'', response ''d2'' Acceptance ''p-5'',
                       response ''d3'' Rejection ''p-5'', response ''d4'' Acceptance ''p-5'',
                       response ''d5'' Acceptance ''p-5'', response ''d6'' Rejection ''p-5'',
                       response ''d7'' Rejection ''p-5'']),
           (300, Some [response ''d8'' Rejection ''p-5''])] of
      Some r \<Rightarrow> approved r \<and> length (responses r) = 7
    | None \<Rightarrow> False)"
proof -
  have len: "length ten = 10" by (simp add: ten_def)
  define first where "first = (100::int, Some [response ''d1'' Acceptance ''p-5'',
      response ''d2'' Acceptance ''p-5'', response ''d3'' Rejection ''p-5''])"
  define six where "six = (4900::int, Some [response ''d1'' Acceptance ''p-5'',
      response ''d2'' Rejection ''p-5'', response ''d3'' Rejection ''p-5'',
      response ''d4'' Acceptance ''p-5'', response ''d5'' Acceptance ''p-5'',
      response ''d6'' Rejection ''p-5''])"
  define seven where "seven = Some [response ''d1'' Acceptance ''p-5'',
      response ''d2'' Acceptance ''p-5'', response ''d3'' Rejection ''p-5'',
      response ''d4'' Acceptance ''p-5'', response ''d5'' Acceptance ''p-5'',
      response ''d6'' Rejection ''p-5'', response ''d7'' Rejection ''p-5'']"
  have t1: "\<forall>obs \<in> set [(0, Some []), first, six]. fst obs - 0 < 5000"
    by (simp add: first_def six_def)
  have v6: "length (voters ''p-5'' (rowsSeen [(0, Some []), first, six])) = 6"
    and a6: "accepting ''p-5'' (rowsSeen [(0, Some []), first, six]) = 3"
    by (simp_all add: first_def six_def tally_eval)
  have b1: "[(0, Some []), first, six] \<noteq> []
              \<longrightarrow> length (voters ''p-5'' (rowsSeen [(0, Some []), first, six])) < 7"
    by (simp add: v6)
  from ten_participants_round [OF len t1 b1, where t = 5000 and table = None and rest = "[]"]
  obtain r1 where
    "gatherConsensus ''p-5'' ten 5000 0 ([(0, Some []), first, six] @ (5000, None) # []) = Some r1"
    "length (responses r1) = length (voters ''p-5'' (rowsSeen [(0, Some []), first, six]))"
    "approved r1 \<longleftrightarrow> 4 \<le> accepting ''p-5'' (rowsSeen [(0, Some []), first, six])"
    using v6 by auto
  then have one: "(case gatherConsensus ''p-5'' ten 5000 0 [(0, Some []), first, six, (5000, None)] of
      Some r \<Rightarrow> \<not> approved r \<and> length (responses r) = 6 | None \<Rightarrow> False)"
    by (simp add: v6 a6)
  have t2: "\<forall>obs \<in> set [(0, Some []), first]. fst obs - 0 < 5000"
    by (simp add: first_def)
  have b2: "[(0, Some []), first] \<noteq> []
              \<longrightarrow> length (voters ''p-5'' (rowsSeen [(0, Some []), first])) < 7"
    by (simp add: first_def tally_eval)
  have v7: "length (voters ''p-5'' (rowsSeen ([(0, Some []), first] @ [(200, seven)]))) = 7"
    and a7: "accepting ''p-5'' (rowsSeen ([(0, Some []), first] @ [(200, seven)])) = 4"
    by (simp_all add: first_def seven_def tally_eval)
  from ten_participants_round [OF len t2 b2, where t = 200 and table = seven
      and rest = "[(300, Some [response ''d8'' Rejection ''p-5''])]"]
  obtain r2 where
    "gatherConsensus ''p-5'' ten 5000 0
       ([(0, Some []), first] @ (200, seven) # [(300, Some [response ''d8'' Rejection ''p-5''])]) = Some r2"
    "length (responses r2) = length (voters ''p-5'' (rowsSeen ([(0, Some []), first] @ [(200, seven)])))"
    "approved r2"
    using v7 a7 by auto
  then have two: "(case gatherConsensus ''p-5'' ten 5000 0
       [(0, Some []), first, (200, seven), (300, Some [response ''d8'' Rejection ''p-5''])] of
      Some r \<Rightarrow> approved r \<and> length (responses r) = 7 | None \<Rightarrow> False)"
    using v7 by simp
  from one two show ?thesis
    by (simp add: first_def six_def seven_def)
qed

section \<open>Auction rounds: the fairness tracker and the recomputed priority\<close>





lemma loggedRounds_sendMessage: "loggedRounds (sendMessage rcpt mt pl prio st) = loggedRounds st"
  by (simp add: loggedRounds_def sendMessage_def)

















text \<open>
  The score that \<open>calculatePriority\<close> computes from a payload, and the score an
  auction round recomputes for a queued request from the fields stored in it.
\<close>

lemma priority_closed_form:
  "calculatePriority tracker p =
     max 0 (or_default (p_waitTime p) 0 / 60 * 10
            + or_default (p_passengers p) 0 * 5
            + (if below (p_batteryLevel p) 20 then 50 else 0)
            - companyPenalty tracker (p_company p))"
  by (simp add: calculatePriority_def Let_def companyPenalty_def)

lemma recomputed_priority:
  "waitTime (refresh now tracker req) = real_of_int (now - arrivalTime req) / 1000
   \<and> priority (refresh now tracker req) =
       max 0 (waitTime (refresh now tracker req) / 60 * 10
              + passengers req * 5
              + (if batteryLevel req < 20 then 50 else 0)
              - companyPenalty tracker (company req))"
proof -
  define w where "w = real_of_int (now - arrivalTime req) / 1000"
  have wait: "waitTime (refresh now tracker req) = w"
    by (simp add: refresh_def Let_def w_def)
  have "priority (refresh now tracker req) = calculatePriority tracker (spread (req\<lparr>waitTime := w\<rparr>))"
    by (simp add: refresh_def Let_def w_def)
  also have "\<dots> = max 0 (w / 60 * 10 + passengers req * 5
                          + (if batteryLevel req < 20 then 50 else 0)
                          - companyPenalty tracker (company req))"
    unfolding priority_closed_form by (simp add: spread_def or_default_Some_0 below_def)
  finally show ?thesis
    using wait by (simp only: w_def)
qed

text \<open>
  A request that reports any battery level other than 0 is stored with that level,
  and both its first priority and every recomputed priority follow the formula with
  the reported level.
\<close>

lemma reported_battery_kept:
  assumes "p_batteryLevel p = Some b" and "b \<noteq> 0"
  shows "batteryLevel (newRequest now tracker p) = b"
    and "priority (newRequest now tracker p) =
           max 0 (or_default (p_waitTime p) 0 / 60 * 10 + or_default (p_passengers p) 0 * 5
                  + (if b < 20 then 50 else 0) - companyPenalty tracker (p_company p))"
    and "priority (refresh later tracker (newRequest now tracker p)) =
           max 0 (real_of_int (later - now) / 1000 / 60 * 10 + or_default (p_passengers p) 0 * 5
                  + (if b < 20 then 50 else 0) - companyPenalty tracker (p_company p))"
proof -
  show b: "batteryLevel (newRequest now tracker p) = b"
    using assms by (simp add: newRequest_def or_default_def)
  show "priority (newRequest now tracker p) =
           max 0 (or_default (p_waitTime p) 0 / 60 * 10 + or_default (p_passengers p) 0 * 5
                  + (if b < 20 then 50 else 0) - companyPenalty tracker (p_company p))"
    using assms(1) by (simp add: newRequest_def priority_closed_form below_def)
  have fields: "passengers (newRequest now tracker p) = or_default (p_passengers p) 0"
    "company (newRequest now tracker p) = p_company p"
    "arrivalTime (newRequest now tracker p) = now"
    by (simp_all add: newRequest_def)
  show "priority (refresh later tracker (newRequest now tracker p)) =
           max 0 (real_of_int (later - now) / 1000 / 60 * 10 + or_default (p_passengers p) 0 * 5
                  + (if b < 20 then 50 else 0) - companyPenalty tracker (p_company p))"
    using recomputed_priority [of later tracker "newRequest now tracker p"]
    by (simp only: b fields)
qed

text \<open>
  Claim C7 at a concrete input. A vehicle reports battery level 0 and no passengers.
  The request is given priority 50 from the payload, but stores battery level 100
  (\<open>batteryLevel || 100\<close>), so the auction round started by this very request
  recomputes its priority as 0, where the formula of the claim at the reported level
  gives 50: the adapter is called with the vehicle at priority 0, without the 50
  points for a battery below 20.
\<close>

theorem zero_battery_loses_bonus:
  "p_batteryLevel (payload deadBattery) = Some 0
   \<and> priority (newRequest 3000 [] (payload deadBattery)) = 50
   \<and> batteryLevel (newRequest 3000 [] (payload deadBattery)) = 100
   \<and> priority (refresh 3000 [] (newRequest 3000 [] (payload deadBattery))) = 0
   \<and> priority (refresh 3000 [] (newRequest 3000 [] (payload deadBattery)))
       \<noteq> max 0 (real_of_int (3000 - 3000) / 1000 / 60 * 10 + 0 * 5
                  + (if (0::real) < 20 then 50 else 0) - companyPenalty [] ''waymo'')
   \<and> (case processMessage (Reply (Parsed (ruling [] []))) 3000 deadBattery northQueued of
        Completed st \<Rightarrow>
          AdapterCall
            [\<lparr>vehicleId = ''w-17'', company = ''waymo'', arrivalTime = 2000, waitTime = 1,
              priority = 61 / 6, passengers = 2, batteryLevel = 80, direction = ''north''\<rparr>,
             \<lparr>vehicleId = ''w-30'', company = ''waymo'', arrivalTime = 3000, waitTime = 0,
              priority = 0, passengers = 0, batteryLevel = 100, direction = ''south''\<rparr>]
            \<in> set (effects st)
      | Raised e st \<Rightarrow> False)"
  by (simp add: deadBattery_def ruling_def northQueued_eq agent_eval)

end
